theory Spec2Isabelle
  imports Complex_Main
begin

chapter \<open>CiderPress PAW corrections: a shallow embedding of \<open>fast_atom_utils.py\<close>\<close>

text \<open>
  The development follows \<^verbatim>\<open>src/ciderpress/gpaw/fast_atom_utils.py\<close>. Python exceptions are
  values of \<open>pyerr\<close>; a function that can raise returns \<open>pyerr + 'a\<close>. Floating-point arrays
  are modelled over the reals (exact arithmetic); integer index tables are lists.
\<close>

section \<open>Definitions\<close>

subsection \<open>Exceptions\<close>

datatype pyerr =
    AttributeError string
  | KeyError nat
  | IndexError
  | LookupError nat
  | AssertionError
  | ValueError
  | LinAlgError nat
  | NameError string
  | UnboundLocalError string
  | LibraryError nat
  | NonFiniteError

subsection \<open>Shell tables of \<open>PAugSetup.from_setup\<close> and \<open>PSmoothSetup.from_setup\<close>\<close>

text \<open>
  Both constructors start with an \<open>if\<close>/\<open>elif\<close> chain on \<open>setup.Z\<close> that picks the literal
  lists \<open>nlist_j\<close>, \<open>llist_j\<close> and \<open>nbas_lst\<close> (lines 1297-1324 and 1702-1722). The triple
  below is (\<open>nlist_j\<close>, \<open>llist_j\<close>, \<open>nbas_lst\<close>).
\<close>

type_synonym raw_tables = "nat list \<times> nat list \<times> nat list"

definition PAugSetup_raw_tables :: "int \<Rightarrow> raw_tables" where
  "PAugSetup_raw_tables Z =
     (if Z > 1000 then
        ([0, 2, 4, 6, 8, 1, 3, 5, 7, 2, 4, 6, 8, 3, 5, 7, 4, 6, 8],
         [0, 0, 0, 0, 0, 1, 1, 1, 1, 2, 2, 2, 2, 3, 3, 3, 4, 4, 4],
         [5, 4, 4, 3, 3])
      else if Z > 18 then
        ([0, 2, 4, 6, 1, 3, 5, 2, 4, 6, 3, 5, 4, 6],
         [0, 0, 0, 0, 1, 1, 1, 2, 2, 2, 3, 3, 4, 4],
         [4, 3, 3, 2, 2])
      else if Z > 0 then
        ([0, 2, 4, 1, 3, 2, 4, 3, 4],
         [0, 0, 0, 1, 1, 2, 2, 3, 4],
         [3, 2, 2, 1, 1])
      else
        ([0, 2, 1, 2],
         [0, 0, 1, 2],
         [2, 1, 1]))"

definition PSmoothSetup_raw_tables :: "int \<Rightarrow> raw_tables" where
  "PSmoothSetup_raw_tables Z =
     (if Z > 100 then
        ([0, 2, 4, 6, 1, 3, 5, 2, 4, 6, 3, 5, 4, 6],
         [0, 0, 0, 0, 1, 1, 1, 2, 2, 2, 3, 3, 4, 4],
         [4, 3, 3, 2, 2])
      else if Z > 0 then
        ([0, 2, 4, 1, 3, 2, 4, 3, 4],
         [0, 0, 0, 1, 1, 2, 2, 3, 4],
         [3, 2, 2, 1, 1])
      else
        ([0, 2, 1, 2],
         [0, 0, 1, 2],
         [2, 1, 1]))"

text \<open>\<open>np.cumsum\<close>, and \<open>nbas_loc = np.append([0], np.cumsum(nbas_lst))\<close>.\<close>

fun cumsum_from :: "nat \<Rightarrow> nat list \<Rightarrow> nat list" where
  "cumsum_from acc [] = []"
| "cumsum_from acc (x # xs) = (acc + x) # cumsum_from (acc + x) xs"

definition nbas_loc_of :: "nat list \<Rightarrow> nat list" where
  "nbas_loc_of nbas = 0 # cumsum_from 0 nbas"

text \<open>
  The loop \<open>for j, n in enumerate(nlist_j): l = llist_j[j]; for m in range(2 * l + 1): ...\<close>
  (lines 1338-1344 and 1766-1772) appends \<open>l * l + m\<close> to \<open>lmlist_i\<close> and \<open>j\<close> to \<open>jlist_i\<close>.
  \<open>llist_j[j]\<close> raises \<open>IndexError\<close> when \<open>llist_j\<close> is shorter than \<open>nlist_j\<close>.
\<close>

fun proj_index_loop :: "nat list \<Rightarrow> nat \<Rightarrow> nat list \<Rightarrow> pyerr + (nat list \<times> nat list)" where
  "proj_index_loop ll j [] = Inr ([], [])"
| "proj_index_loop ll j (n # ns) =
     (if j < length ll then
        (case proj_index_loop ll (Suc j) ns of
           Inl e \<Rightarrow> Inl e
         | Inr (lms, js) \<Rightarrow>
             Inr (map (\<lambda>m. (ll ! j) * (ll ! j) + m) [0..<2 * (ll ! j) + 1] @ lms,
                  replicate (2 * (ll ! j) + 1) j @ js))
      else Inl IndexError)"

record shell_tables =
  nlist_j :: "nat list"
  llist_j :: "nat list"
  nbas_loc :: "nat list"
  lmlist_i :: "nat list"
  jlist_i :: "nat list"

definition build_tables :: "raw_tables \<Rightarrow> pyerr + shell_tables" where
  "build_tables raw =
     (case raw of (nl, ll, nbas) \<Rightarrow>
        (case proj_index_loop ll 0 nl of
           Inl e \<Rightarrow> Inl e
         | Inr (lms, js) \<Rightarrow>
             Inr \<lparr>nlist_j = nl, llist_j = ll, nbas_loc = nbas_loc_of nbas,
                  lmlist_i = lms, jlist_i = js\<rparr>))"

definition PAugSetup_tables :: "int \<Rightarrow> pyerr + shell_tables" where
  "PAugSetup_tables Z = build_tables (PAugSetup_raw_tables Z)"

definition PSmoothSetup_tables :: "int \<Rightarrow> pyerr + shell_tables" where
  "PSmoothSetup_tables Z = build_tables (PSmoothSetup_raw_tables Z)"



subsection \<open>The three-stage orchestrator \<open>FastPASDWCiderKernel\<close>\<close>

text \<open>
  The kernel object keeps five dictionaries keyed by atom index between the stages. The
  class body only annotates them (\<open>fr_asgLq: dict\<close>, lines 774-784), which creates no
  attribute: an attribute exists on the instance from the first assignment on, so each
  field is an \<open>option\<close>, \<open>None\<close> meaning "attribute absent". A stage that raises has already
  changed the object, so every stage returns the outcome together with the new state.
\<close>

record 't kernel_state =
  fr_asgLq :: "(nat \<rightharpoonup> 't) option"
  df_asgLq :: "(nat \<rightharpoonup> 't) option"
  c_asiq :: "(nat \<rightharpoonup> 't) option"
  vfr_asgLq :: "(nat \<rightharpoonup> 't) option"
  vdf_asgLq :: "(nat \<rightharpoonup> 't) option"

text \<open>
  The per-atom numerics (radial expansion, convolution, projection solve, ML kernel) are
  collaborators of the orchestrator; they are taken as total functions of the values the
  loop body reads:
  \<^item> \<open>feature_terms setup D_sp\<close> gives (\<open>c_siq\<close>, \<open>df_sgLq\<close>, \<open>fr_sgLq\<close>) of lines 889-955;
  \<^item> \<open>energy_terms setup D_sp D_siq df_sgLq fr_sgLq\<close> gives
    (\<open>deltaE[a]\<close>, \<open>deltaV[a]\<close>, \<open>dvD_asiq[a]\<close>, \<open>vfr_sgLq\<close>, \<open>vf_sgLq\<close>) of lines 983-1036;
  \<^item> \<open>potential_terms setup D_sp vc_siq vdf_sgLq vfr_sgLq\<close> gives \<open>dH_asp[a]\<close> of
    lines 1060-1119.
\<close>

record ('s, 't) paw_numerics =
  feature_terms :: "'s \<Rightarrow> 't \<Rightarrow> 't \<times> 't \<times> 't"
  energy_terms :: "'s \<Rightarrow> 't \<Rightarrow> 't \<Rightarrow> 't \<Rightarrow> 't \<Rightarrow> 't \<times> 't \<times> 't \<times> 't \<times> 't"
  potential_terms :: "'s \<Rightarrow> 't \<Rightarrow> 't \<Rightarrow> 't \<Rightarrow> 't \<Rightarrow> 't"

text \<open>
  \<open>for a, D_sp in D_asp.items()\<close> of \<open>calculate_paw_cider_features\<close>. \<open>setups[a]\<close> fails
  with a lookup error for an unknown atom; \<open>self.df_asgLq[a] = ...\<close> reads the attribute
  and stores the item.
\<close>

fun features_loop ::
  "('s, 't) paw_numerics \<Rightarrow> (nat \<rightharpoonup> 's) \<Rightarrow> 't kernel_state \<Rightarrow> (nat \<times> 't) list
     \<Rightarrow> (pyerr + unit) \<times> 't kernel_state" where
  "features_loop ext setups st [] = (Inr (), st)"
| "features_loop ext setups st ((a, D_sp) # rest) =
     (case setups a of
        None \<Rightarrow> (Inl (LookupError a), st)
      | Some setup \<Rightarrow>
          (case feature_terms ext setup D_sp of (c_siq, df_sgLq, fr_sgLq) \<Rightarrow>
             (case df_asgLq st of
                None \<Rightarrow> (Inl (AttributeError ''df_asgLq''), st)
              | Some dfm \<Rightarrow>
                  (case fr_asgLq st of
                     None \<Rightarrow> (Inl (AttributeError ''fr_asgLq''),
                              st\<lparr>df_asgLq := Some (dfm(a \<mapsto> df_sgLq))\<rparr>)
                   | Some frm \<Rightarrow>
                       (case c_asiq st of
                          None \<Rightarrow> (Inl (AttributeError ''c_asiq''),
                                   st\<lparr>df_asgLq := Some (dfm(a \<mapsto> df_sgLq)),
                                      fr_asgLq := Some (frm(a \<mapsto> fr_sgLq))\<rparr>)
                        | Some cm \<Rightarrow>
                            features_loop ext setups
                              (st\<lparr>df_asgLq := Some (dfm(a \<mapsto> df_sgLq)),
                                  fr_asgLq := Some (frm(a \<mapsto> fr_sgLq)),
                                  c_asiq := Some (cm(a \<mapsto> c_siq))\<rparr>) rest)))))"

text \<open>
  \<open>calculate_paw_cider_features\<close> (lines 866-956). The assertion
  \<open>(nspin == 1) or self.is_cider_functional\<close> cannot fail: the class attribute is \<open>True\<close>.
  The stage returns the stored dictionaries \<open>self.c_asiq\<close> and \<open>self.df_asgLq\<close>.
\<close>

definition calculate_paw_cider_features ::
  "('s, 't) paw_numerics \<Rightarrow> 't kernel_state \<Rightarrow> (nat \<rightharpoonup> 's) \<Rightarrow> (nat \<times> 't) list
     \<Rightarrow> (pyerr + (nat \<rightharpoonup> 't) \<times> (nat \<rightharpoonup> 't)) \<times> 't kernel_state" where
  "calculate_paw_cider_features ext st setups D_asp =
     (if length D_asp = 0 then (Inr (Map.empty, Map.empty), st)
      else
        (case features_loop ext setups
                (st\<lparr>fr_asgLq := Some Map.empty, df_asgLq := Some Map.empty,
                    c_asiq := Some Map.empty\<rparr>) D_asp of
           (Inl e, st') \<Rightarrow> (Inl e, st')
         | (Inr u, st') \<Rightarrow>
             (case c_asiq st' of
                None \<Rightarrow> (Inl (AttributeError ''c_asiq''), st')
              | Some cm \<Rightarrow>
                  (case df_asgLq st' of
                     None \<Rightarrow> (Inl (AttributeError ''df_asgLq''), st')
                   | Some dfm \<Rightarrow> (Inr (cm, dfm), st')))))"

text \<open>
  The loop of \<open>calculate_paw_cider_energy\<close> (lines 981-1036). Per atom the body evaluates,
  in this order, \<open>setups[a]\<close>, \<open>D_asiq[a]\<close>, \<open>self.df_asgLq[a]\<close> and \<open>self.fr_asgLq[a]\<close>, and
  at the end stores \<open>self.vfr_asgLq[a]\<close> and \<open>self.vdf_asgLq[a]\<close>. The accumulator holds
  the local dictionaries (\<open>dvD_asiq\<close>, \<open>deltaE\<close>, \<open>deltaV\<close>).
\<close>

fun energy_loop ::
  "('s, 't) paw_numerics \<Rightarrow> (nat \<rightharpoonup> 's) \<Rightarrow> (nat \<rightharpoonup> 't)
     \<Rightarrow> (nat \<rightharpoonup> 't) \<times> (nat \<rightharpoonup> 't) \<times> (nat \<rightharpoonup> 't) \<Rightarrow> 't kernel_state \<Rightarrow> (nat \<times> 't) list
     \<Rightarrow> (pyerr + (nat \<rightharpoonup> 't) \<times> (nat \<rightharpoonup> 't) \<times> (nat \<rightharpoonup> 't)) \<times> 't kernel_state" where
  "energy_loop ext setups D_asiq acc st [] = (Inr acc, st)"
| "energy_loop ext setups D_asiq acc st ((a, D_sp) # rest) =
     (case setups a of
        None \<Rightarrow> (Inl (LookupError a), st)
      | Some setup \<Rightarrow>
          (case D_asiq a of
             None \<Rightarrow> (Inl (KeyError a), st)
           | Some D_siq \<Rightarrow>
               (case df_asgLq st of
                  None \<Rightarrow> (Inl (AttributeError ''df_asgLq''), st)
                | Some dfm \<Rightarrow>
                    (case dfm a of
                       None \<Rightarrow> (Inl (KeyError a), st)
                     | Some df_sgLq \<Rightarrow>
                         (case fr_asgLq st of
                            None \<Rightarrow> (Inl (AttributeError ''fr_asgLq''), st)
                          | Some frm \<Rightarrow>
                              (case frm a of
                                 None \<Rightarrow> (Inl (KeyError a), st)
                               | Some fr_sgLq \<Rightarrow>
                                   (case energy_terms ext setup D_sp D_siq df_sgLq fr_sgLq of
                                      (dE, dV, dvD, vfr_sgLq, vf_sgLq) \<Rightarrow>
                                        (case vfr_asgLq st of
                                           None \<Rightarrow> (Inl (AttributeError ''vfr_asgLq''), st)
                                         | Some vfrm \<Rightarrow>
                                             (case vdf_asgLq st of
                                                None \<Rightarrow>
                                                  (Inl (AttributeError ''vdf_asgLq''),
                                                   st\<lparr>vfr_asgLq := Some (vfrm(a \<mapsto> vfr_sgLq))\<rparr>)
                                              | Some vdfm \<Rightarrow>
                                                  (case acc of (dvD_asiq, deltaE, deltaV) \<Rightarrow>
                                                     energy_loop ext setups D_asiq
                                                       (dvD_asiq(a \<mapsto> dvD), deltaE(a \<mapsto> dE),
                                                        deltaV(a \<mapsto> dV))
                                                       (st\<lparr>vfr_asgLq := Some (vfrm(a \<mapsto> vfr_sgLq)),
                                                           vdf_asgLq := Some (vdfm(a \<mapsto> vf_sgLq))\<rparr>)
                                                       rest))))))))))"

text \<open>
  \<open>calculate_paw_cider_energy\<close> (lines 958-1037): the empty check comes before
  \<open>self.vfr_asgLq = {}\<close> and \<open>self.vdf_asgLq = {}\<close>; the result is
  (\<open>dvD_asiq\<close>, \<open>deltaE\<close>, \<open>deltaV\<close>).
\<close>

definition calculate_paw_cider_energy ::
  "('s, 't) paw_numerics \<Rightarrow> 't kernel_state \<Rightarrow> (nat \<rightharpoonup> 's) \<Rightarrow> (nat \<times> 't) list \<Rightarrow> (nat \<rightharpoonup> 't)
     \<Rightarrow> (pyerr + (nat \<rightharpoonup> 't) \<times> (nat \<rightharpoonup> 't) \<times> (nat \<rightharpoonup> 't)) \<times> 't kernel_state" where
  "calculate_paw_cider_energy ext st setups D_asp D_asiq =
     (if length D_asp = 0 then (Inr (Map.empty, Map.empty, Map.empty), st)
      else energy_loop ext setups D_asiq (Map.empty, Map.empty, Map.empty)
             (st\<lparr>vfr_asgLq := Some Map.empty, vdf_asgLq := Some Map.empty\<rparr>) D_asp)"

text \<open>
  The loop of \<open>calculate_paw_cider_potential\<close> (lines 1058-1119): per atom \<open>setups[a]\<close>,
  \<open>vc_asiq[a]\<close>, \<open>self.vdf_asgLq[a]\<close>, \<open>self.vfr_asgLq[a]\<close>; nothing is stored on the object
  and nothing stored is deleted.
\<close>

fun potential_loop ::
  "('s, 't) paw_numerics \<Rightarrow> (nat \<rightharpoonup> 's) \<Rightarrow> (nat \<rightharpoonup> 't) \<Rightarrow> 't kernel_state
     \<Rightarrow> (nat \<rightharpoonup> 't) \<Rightarrow> (nat \<times> 't) list \<Rightarrow> pyerr + (nat \<rightharpoonup> 't)" where
  "potential_loop ext setups vc_asiq st dH_asp [] = Inr dH_asp"
| "potential_loop ext setups vc_asiq st dH_asp ((a, D_sp) # rest) =
     (case setups a of
        None \<Rightarrow> Inl (LookupError a)
      | Some setup \<Rightarrow>
          (case vc_asiq a of
             None \<Rightarrow> Inl (KeyError a)
           | Some vc_siq \<Rightarrow>
               (case vdf_asgLq st of
                  None \<Rightarrow> Inl (AttributeError ''vdf_asgLq'')
                | Some vdfm \<Rightarrow>
                    (case vdfm a of
                       None \<Rightarrow> Inl (KeyError a)
                     | Some vdf_sgLq \<Rightarrow>
                         (case vfr_asgLq st of
                            None \<Rightarrow> Inl (AttributeError ''vfr_asgLq'')
                          | Some vfrm \<Rightarrow>
                              (case vfrm a of
                                 None \<Rightarrow> Inl (KeyError a)
                               | Some vfr_sgLq \<Rightarrow>
                                   potential_loop ext setups vc_asiq st
                                     (dH_asp(a \<mapsto>
                                        potential_terms ext setup D_sp vc_siq vdf_sgLq vfr_sgLq))
                                     rest))))))"

definition calculate_paw_cider_potential ::
  "('s, 't) paw_numerics \<Rightarrow> 't kernel_state \<Rightarrow> (nat \<rightharpoonup> 's) \<Rightarrow> (nat \<times> 't) list \<Rightarrow> (nat \<rightharpoonup> 't)
     \<Rightarrow> (pyerr + (nat \<rightharpoonup> 't)) \<times> 't kernel_state" where
  "calculate_paw_cider_potential ext st setups D_asp vc_asiq =
     (if length D_asp = 0 then (Inr Map.empty, st)
      else (potential_loop ext setups vc_asiq st Map.empty D_asp, st))"

text \<open>
  The dispatcher \<open>calculate_paw_feat_corrections\<close> (lines 1158-1165); an argument left
  at its default \<open>None\<close> is \<open>None\<close> here.
\<close>

datatype 't stage_result =
    FeatureResult "(nat \<rightharpoonup> 't) \<times> (nat \<rightharpoonup> 't)"
  | EnergyResult "(nat \<rightharpoonup> 't) \<times> (nat \<rightharpoonup> 't) \<times> (nat \<rightharpoonup> 't)"
  | PotentialResult "nat \<rightharpoonup> 't"

definition calculate_paw_feat_corrections ::
  "('s, 't) paw_numerics \<Rightarrow> 't kernel_state \<Rightarrow> (nat \<rightharpoonup> 's) \<Rightarrow> (nat \<times> 't) list
     \<Rightarrow> (nat \<rightharpoonup> 't) option \<Rightarrow> (nat \<rightharpoonup> 't) option \<Rightarrow> (nat \<rightharpoonup> 't) option
     \<Rightarrow> (pyerr + 't stage_result) \<times> 't kernel_state" where
  "calculate_paw_feat_corrections ext st setups D_asp D_asiq df_asgLq_arg vc_asiq =
     (case D_asiq of
        None \<Rightarrow>
          (case vc_asiq of
             None \<Rightarrow>
               (case calculate_paw_cider_features ext st setups D_asp of
                  (r, st') \<Rightarrow> (map_sum id FeatureResult r, st'))
           | Some vc \<Rightarrow>
               (case calculate_paw_cider_potential ext st setups D_asp vc of
                  (r, st') \<Rightarrow> (map_sum id PotentialResult r, st')))
      | Some D \<Rightarrow>
          (case df_asgLq_arg of
             None \<Rightarrow> (Inl AssertionError, st)
           | Some df \<Rightarrow>
               (case calculate_paw_cider_energy ext st setups D_asp D of
                  (r, st') \<Rightarrow> (map_sum id EnergyResult r, st'))))"






subsection \<open>The interpolation count of \<open>initialize_more_things\<close>\<close>



subsection \<open>Name resolution in the bodies of \<open>PSmoothSetup2\<close>\<close>
























subsection \<open>Dense linear algebra: \<open>scipy.linalg.cho_factor\<close> and \<open>cho_solve\<close>\<close>

text \<open>
  Arrays of floats are functions from indices to reals, with their extents kept beside
  them; an array is zero outside its extents. \<open>cho_factor(a)\<close> (default \<open>lower=False\<close>)
  returns the upper triangular \<open>U\<close> with \<open>a = U\<^sup>T U\<close>, reading the upper triangle of \<open>a\<close>, and
  raises \<open>LinAlgError\<close> when a pivot is not positive; \<open>cho_solve\<close> solves \<open>U\<^sup>T y = b\<close>
  forwards and \<open>U x = y\<close> backwards. Both are modelled in exact arithmetic.
\<close>

type_synonym vec = "nat \<Rightarrow> real"
type_synonym mat = "nat \<Rightarrow> nat \<Rightarrow> real"

function chol :: "mat \<Rightarrow> nat \<Rightarrow> nat \<Rightarrow> real" where
  "chol A i j =
     (if j < i then 0
      else if i = j then sqrt (A i i - (\<Sum>k<i. (chol A k i)\<^sup>2))
      else (A i j - (\<Sum>k<i. chol A k i * chol A k j)) / chol A i i)"
  by pat_completeness auto
termination
  by (relation "measure (\<lambda>(A, i, j). 2 * i + (if i = j then 0 else 1))") auto

declare chol.simps [simp del]

definition chol_pivot :: "mat \<Rightarrow> nat \<Rightarrow> real" where
  "chol_pivot A i = A i i - (\<Sum>k<i. (chol A k i)\<^sup>2)"

definition cho_factor :: "nat \<Rightarrow> mat \<Rightarrow> mat option" where
  "cho_factor n A =
     (if list_all (\<lambda>i. 0 < chol_pivot A i) [0..<n]
      then Some (\<lambda>i j. if i < n \<and> j < n then chol A i j else 0)
      else None)"

fun fwd_subst :: "mat \<Rightarrow> vec \<Rightarrow> nat \<Rightarrow> real" where
  "fwd_subst U b i = (b i - (\<Sum>k<i. U k i * fwd_subst U b k)) / U i i"

declare fwd_subst.simps [simp del]

function bwd_subst :: "nat \<Rightarrow> mat \<Rightarrow> vec \<Rightarrow> nat \<Rightarrow> real" where
  "bwd_subst n U y i =
     (if i < n then (y i - (\<Sum>k\<in>{i<..<n}. U i k * bwd_subst n U y k)) / U i i else 0)"
  by pat_completeness auto
termination
  by (relation "measure (\<lambda>(n, U, y, i). n - i)") auto

declare bwd_subst.simps [simp del]

definition cho_solve :: "nat \<Rightarrow> mat \<Rightarrow> vec \<Rightarrow> vec" where
  "cho_solve n U b = bwd_subst n U (fwd_subst U b)"

subsection \<open>\<open>PASDWData\<close> and \<open>PAugSetup\<close>\<close>

text \<open>
  The part of GPAW's radial grid descriptor that the code reads: the number of points,
  the radii \<open>r_g\<close> and the spacings \<open>dr_g\<close>.
\<close>

record radial_grid =
  ng :: nat
  r_g :: vec
  dr_g :: vec

text \<open>
  The fields of \<open>PASDWData.__init__\<close> (lines 1168-1221) that the functions below read.
  \<open>nj\<close> and \<open>ni\<close> are the lengths of \<open>nlist_j\<close> and \<open>lmlist_i\<close>. The spline tables
  (\<open>pfuncs_ntp\<close>, \<open>ffuncs_jtp\<close>) live on the separate interpolation grid; nothing below
  reads them and they are left out.
\<close>

record pasdw_data =
  slrgd :: radial_grid
  tabs :: shell_tables
  nn :: nat
  lmax :: nat
  pfuncs_ng :: mat
  rcut_func :: real
  rcut_feat :: real

record paug_setup = pasdw_data +
  ffuncs_jg :: mat
  exact_ovlp_pf :: mat

definition nj_of :: "'a pasdw_data_scheme \<Rightarrow> nat" where
  "nj_of self = length (nlist_j (tabs self))"

definition ni_of :: "'a pasdw_data_scheme \<Rightarrow> nat" where
  "ni_of self = length (lmlist_i (tabs self))"

text \<open>
  \<open>PAugSetup.get_filt\<close> (lines 1271-1274), pointwise:
  \<open>filt = 0.5 + 0.5 * np.cos(np.pi * r_g / self.rcut_feat); filt[r_g > self.rcut_feat] = 0.0\<close>.
\<close>

definition get_filt :: "'a pasdw_data_scheme \<Rightarrow> real \<Rightarrow> real" where
  "get_filt self r = (if r > rcut_feat self then 0 else 1 / 2 + 1 / 2 * cos (pi * r / rcut_feat self))"

text \<open>The quadrature weight \<open>dv_g * filt\<close> of line 1245, with \<open>dv_g = r_g * r_g * dr_g\<close>.\<close>

definition g2a_weight :: "'a pasdw_data_scheme \<Rightarrow> nat \<Rightarrow> real" where
  "g2a_weight self g =
     r_g (slrgd self) g * r_g (slrgd self) g * dr_g (slrgd self) g
       * get_filt self (r_g (slrgd self) g)"

text \<open>
  The \<open>einsum("ig,jg,g->ij", ...)\<close> of lines 1241-1246 for the rows \<open>pfuncs_ng[ns]\<close>.
\<close>

definition channel_ovlp :: "'a pasdw_data_scheme \<Rightarrow> nat list \<Rightarrow> mat" where
  "channel_ovlp self ns =
     (\<lambda>i j. if i < length ns \<and> j < length ns
            then \<Sum>g<ng (slrgd self).
                   pfuncs_ng self (ns ! i) g * pfuncs_ng self (ns ! j) g * g2a_weight self g
            else 0)"

text \<open>
  One pass of the loop \<open>for l in range(self.lmax + 1)\<close> of \<open>initialize_g2a\<close> (lines
  1239-1248). \<open>nbas_loc[l + 1]\<close> raises \<open>IndexError\<close> past the end; the slice
  \<open>nlist_j[jmin:jmax]\<close> is clipped as Python clips it; the fancy index \<open>pfuncs_ng[...]\<close>
  raises \<open>IndexError\<close> for a row that does not exist; \<open>cho_factor\<close> raises \<open>LinAlgError\<close>.
  \<open>channel_ns\<close> is the slice \<open>nlist_j[jmin:jmax]\<close>.
  The solve has the matrix \<open>pfuncs_ng[nlist_j[jmin:jmax]]\<close> as right-hand side, one column
  per grid point, and the result is stored in the rows \<open>jmin..jmax-1\<close> of \<open>ffuncs_jg\<close>.
\<close>

definition channel_ns :: "'a pasdw_data_scheme \<Rightarrow> nat \<Rightarrow> nat list" where
  "channel_ns self l =
     take (nbas_loc (tabs self) ! (l + 1) - nbas_loc (tabs self) ! l)
       (drop (nbas_loc (tabs self) ! l) (nlist_j (tabs self)))"

definition g2a_channel :: "'a pasdw_data_scheme \<Rightarrow> nat \<Rightarrow> mat \<Rightarrow> pyerr + mat" where
  "g2a_channel self l ff =
     (if \<not> l + 1 < length (nbas_loc (tabs self)) then Inl IndexError
      else
        (let jmin = nbas_loc (tabs self) ! l;
             ns = channel_ns self l
         in if \<not> list_all (\<lambda>m. m < nn self) ns then Inl IndexError
            else
              (case cho_factor (length ns) (channel_ovlp self ns) of
                 None \<Rightarrow> Inl (LinAlgError l)
               | Some U \<Rightarrow>
                   Inr (\<lambda>j g. if jmin \<le> j \<and> j < jmin + length ns \<and> g < ng (slrgd self)
                              then cho_solve (length ns) U (\<lambda>c. pfuncs_ng self (ns ! c) g) (j - jmin)
                              else ff j g))))"

fun g2a_loop :: "'a pasdw_data_scheme \<Rightarrow> nat list \<Rightarrow> mat \<Rightarrow> pyerr + mat" where
  "g2a_loop self [] ff = Inr ff"
| "g2a_loop self (l # ls) ff =
     (case g2a_channel self l ff of Inl e \<Rightarrow> Inl e | Inr ff' \<Rightarrow> g2a_loop self ls ff')"

text \<open>
  \<open>PAugSetup.initialize_g2a\<close> (lines 1225-1269). After the loop it sets
  \<open>exact_ovlp_pf = np.identity(ni)\<close>, stores \<open>ffuncs_jg\<close>, multiplies \<open>pfuncs_ng\<close> in place
  by the filter and sets \<open>rcut_func = rcut_feat\<close>. With \<open>rcut_feat = 0\<close> a radius \<open>r \<le> 0\<close>
  makes the filter \<open>nan\<close>, which \<open>cho_factor\<close> rejects with \<open>ValueError\<close>.
\<close>

definition initialize_g2a :: "paug_setup \<Rightarrow> pyerr + paug_setup" where
  "initialize_g2a self =
     (if rcut_feat self = 0 \<and> list_ex (\<lambda>g. r_g (slrgd self) g \<le> 0) [0..<ng (slrgd self)]
      then Inl ValueError
      else
        (case g2a_loop self [0..<lmax self + 1] (\<lambda>j g. 0) of
           Inl e \<Rightarrow> Inl e
         | Inr ff \<Rightarrow>
             Inr (self\<lparr>pfuncs_ng := (\<lambda>n g. pfuncs_ng self n g * get_filt self (r_g (slrgd self) g)),
                       rcut_func := rcut_feat self,
                       ffuncs_jg := ff,
                       exact_ovlp_pf := (\<lambda>i j. if i = j \<and> i < ni_of self then 1 else 0)\<rparr>)))"

text \<open>
  \<open>PAugSetup.from_setup\<close> (lines 1283-1366). Of the GPAW setup it reads \<open>Z\<close>,
  \<open>np.max(setup.rcut_j)\<close> and the radial grid; \<open>np.max\<close> of an empty grid raises
  \<open>ValueError\<close>. \<open>get_ffunc3(n, r_g, rcut_func)\<close> is defined in
  \<open>ciderpress.gpaw.fit_paw_gauss_pot\<close> and is a parameter: it returns the \<open>n\<close>-th
  projector function on the grid.
\<close>

definition PAugSetup_from_setup ::
  "(nat \<Rightarrow> radial_grid \<Rightarrow> real \<Rightarrow> vec) \<Rightarrow> int \<Rightarrow> real \<Rightarrow> radial_grid \<Rightarrow> pyerr + paug_setup" where
  "PAugSetup_from_setup get_ffunc3 Zat max_rcut_j rgd =
     (if ng rgd = 0 then Inl ValueError
      else
        (case PAugSetup_tables Zat of
           Inl e \<Rightarrow> Inl e
         | Inr tb \<Rightarrow>
             initialize_g2a
               \<lparr>slrgd = rgd, tabs = tb,
                nn = fold max (nlist_j tb) 0 + 1,
                lmax = fold max (llist_j tb) 0,
                pfuncs_ng =
                  (\<lambda>n g. if n < fold max (nlist_j tb) 0 + 1 \<and> g < ng rgd
                         then get_ffunc3 n rgd (Max (r_g rgd ` {..<ng rgd}) * (8 / 10)) g else 0),
                rcut_func = Max (r_g rgd ` {..<ng rgd}) * (8 / 10),
                rcut_feat = max_rcut_j * 1,
                ffuncs_jg = (\<lambda>j g. 0),
                exact_ovlp_pf = (\<lambda>i j. 0)\<rparr>))"

text \<open>
  A small concrete setup: two grid points at radius 1 with spacing 2, cut-off radius 2
  (so that the filter is 1/2 and the weight \<open>r\<^sup>2 dr\<close> times filter is 1), and projector
  functions that are unit vectors on the grid.
\<close>

definition toy_grid :: radial_grid where
  "toy_grid = \<lparr>ng = 2, r_g = (\<lambda>g. 1), dr_g = (\<lambda>g. 2)\<rparr>"

definition toy_ffunc3 :: "nat \<Rightarrow> radial_grid \<Rightarrow> real \<Rightarrow> vec" where
  "toy_ffunc3 n rgd rc =
     (\<lambda>g. if (n = 0 \<and> g = 0) \<or> (n = 2 \<and> g = 1) \<or> (n = 1 \<and> g = 0) then 1 else 0)"

subsection \<open>\<open>PSmoothSetup\<close>\<close>

text \<open>
  The spherical-Bessel-transform grid \<open>setup.nlxc_correction.big_rgd\<close>: its size and its
  real-space and reciprocal-space points.
\<close>

record sbt_grid =
  sbt_ng :: nat
  sbt_r_g :: vec
  sbt_k_g :: vec

datatype any_grid = SbtGrid sbt_grid | SlGrid radial_grid

type_synonym arr3 = "nat \<Rightarrow> nat \<Rightarrow> nat \<Rightarrow> real"
type_synonym arr4 = "nat \<Rightarrow> nat \<Rightarrow> nat \<Rightarrow> nat \<Rightarrow> real"

text \<open>
  The functions that \<open>PSmoothSetup\<close> imports from \<open>ciderpress.gpaw.fit_paw_gauss_pot\<close>,
  and \<open>_interpc\<close> (lines 45-51, a \<open>scipy\<close> interpolation), are collaborators and are
  taken as parameters. A keyword argument that a call leaves out is \<open>None\<close>.
  \<open>get_delta_lpg\<close> returns an array of shape \<open>(lmax + 1, NP, ng)\<close>; it is kept with its
  middle extent \<open>NP\<close>, which \<open>get_c_and_df\<close> reads as \<open>delta_lpg.shape[1]\<close>.
\<close>

record fit_lib =
  get_dv :: "sbt_grid \<Rightarrow> vec"
  get_dvk :: "sbt_grid \<Rightarrow> vec"
  get_delta_lpg :: "real list \<Rightarrow> real \<Rightarrow> any_grid \<Rightarrow> real \<Rightarrow> nat \<Rightarrow> nat \<times> arr3"
  get_delta_lpk :: "nat \<times> arr3 \<Rightarrow> sbt_grid \<Rightarrow> arr3"
  get_pfuncs_k :: "mat \<Rightarrow> nat list \<Rightarrow> sbt_grid \<Rightarrow> nat list \<Rightarrow> mat"
  get_phi_iabk :: "mat \<Rightarrow> vec \<Rightarrow> real list \<Rightarrow> real list \<Rightarrow> arr4"
  get_phi_iabg :: "arr4 \<Rightarrow> nat list \<Rightarrow> sbt_grid \<Rightarrow> arr4"
  get_p11_matrix :: "nat \<times> arr3 \<Rightarrow> sbt_grid \<Rightarrow> real option \<Rightarrow> arr3"
  get_p12_p21_matrix :: "nat \<times> arr3 \<Rightarrow> arr4 \<Rightarrow> sbt_grid \<Rightarrow> nat list \<Rightarrow> vec \<Rightarrow> arr4 \<times> arr4"
  get_p22_matrix ::
    "arr4 \<Rightarrow> sbt_grid \<Rightarrow> real \<Rightarrow> nat \<Rightarrow> vec \<Rightarrow> nat list \<Rightarrow> real option \<Rightarrow> bool option \<Rightarrow> arr4"
  construct_full_p_matrices ::
    "arr3 \<Rightarrow> arr4 \<Rightarrow> arr4 \<Rightarrow> arr4 list \<Rightarrow> vec \<Rightarrow> nat list \<Rightarrow> (nat \<times> mat) list"
  interpc :: "arr4 \<Rightarrow> sbt_grid \<Rightarrow> vec \<Rightarrow> arr4"

text \<open>
  The object: the \<open>PASDWData\<close> fields, the fields \<open>from_setup\<close> adds, and the fields
  \<open>initialize_a2g\<close> assigns. A square matrix is kept with its size; a Cholesky factor
  \<open>c_and_l\<close> is the size and the upper triangular factor.
\<close>

record psmooth_setup = pasdw_data +
  sbt_rgd :: sbt_grid
  alphas :: "real list"
  alphas_ae :: "real list"
  alpha_norms :: "real list"
  pmax :: "real option"
  pfuncs_ng2 :: mat
  w_b :: vec
  delta_lpg :: "nat \<times> arr3"
  delta_lpk :: arr3
  deltasl_lpg :: "nat \<times> arr3"
  phi_jabk :: arr4
  phi_jabg :: arr4
  phi_sr_jabg :: arr4
  p_l_ii :: "(nat \<times> mat) list"
  pinv_l_ii :: "(nat \<times> mat) list"
  p_cl_l_ii :: "(nat \<times> mat) list"












text \<open>
  A concrete instance: one shell, one exponent, and a library whose assembled matrix is
  the \<open>1 \<times> 1\<close> matrix with the given entry.
\<close>

definition toy_lib :: "real \<Rightarrow> fit_lib" where
  "toy_lib d =
     \<lparr>get_dv = (\<lambda>rgd g. 1), get_dvk = (\<lambda>rgd g. 1),
      get_delta_lpg = (\<lambda>ab rc rgd thr lm. (0, \<lambda>l p g. 0)),
      get_delta_lpk = (\<lambda>dlt rgd l p g. 0),
      get_pfuncs_k = (\<lambda>pf ll rgd ns j g. 0),
      get_phi_iabk = (\<lambda>pk kg al be j a b g. 1),
      get_phi_iabg = (\<lambda>phi ll rgd. phi),
      get_p11_matrix = (\<lambda>dlt rgd reg l p p'. 0),
      get_p12_p21_matrix = (\<lambda>dlt phi rgd ll wb. (\<lambda>p b j a. 0, \<lambda>j a p b. 0)),
      get_p22_matrix = (\<lambda>phi rgd rc l wb nbas reg cut j a j' a'. 0),
      construct_full_p_matrices = (\<lambda>p11 p12 p21 p22 wb nbas. [(1, \<lambda>i j. d)]),
      interpc = (\<lambda>phi rgd r. phi)\<rparr>"

definition toy_psmooth :: psmooth_setup where
  "toy_psmooth =
     \<lparr>slrgd = \<lparr>ng = 1, r_g = (\<lambda>g. 1), dr_g = (\<lambda>g. 1)\<rparr>,
      tabs = \<lparr>nlist_j = [0], llist_j = [0], nbas_loc = [0, 1], lmlist_i = [0], jlist_i = [0]\<rparr>,
      nn = 1, lmax = 0, pfuncs_ng = (\<lambda>n g. 1), rcut_func = 1, rcut_feat = 1,
      sbt_rgd = \<lparr>sbt_ng = 1, sbt_r_g = (\<lambda>g. 1), sbt_k_g = (\<lambda>g. 1)\<rparr>,
      alphas = [1], alphas_ae = [1], alpha_norms = [1], pmax = Some 2,
      pfuncs_ng2 = (\<lambda>n g. 1), w_b = (\<lambda>b. 0), delta_lpg = (0, \<lambda>l p g. 0),
      delta_lpk = (\<lambda>l p g. 0), deltasl_lpg = (0, \<lambda>l p g. 0),
      phi_jabk = (\<lambda>j a b g. 0), phi_jabg = (\<lambda>j a b g. 0), phi_sr_jabg = (\<lambda>j a b g. 0),
      p_l_ii = [], pinv_l_ii = [], p_cl_l_ii = []\<rparr>"

subsection \<open>\<open>PSmoothSetup.get_c_and_df\<close>\<close>

text \<open>
  The argument \<open>y_sbLg\<close>: its shape \<open>(nspin, nb, Lmax, ng)\<close> and its entries.
\<close>

record field4 =
  f_nspin :: nat
  f_nb :: nat
  f_Lmax :: nat
  f_ng :: nat
  f_data :: arr4

text \<open>
  The stored arrays are read with the extents \<open>initialize_a2g\<close> gives them: \<open>w_b\<close> has
  \<open>alphas_ae.size\<close> entries; \<open>delta_lpg\<close> and \<open>delta_lpk\<close> have shape \<open>(lmax + 1, NP, ng)\<close> and
  \<open>phi_jabg\<close>, \<open>phi_jabk\<close> have shape \<open>(nj, alphas.size, alphas_ae.size, ng)\<close>, where \<open>ng\<close> is
  the size of \<open>sbt_rgd\<close>, which is also the size of \<open>get_dv(rgd)\<close> and \<open>get_dvk(rgd)\<close>.
  The slice \<open>phi[nbas_loc[l] : nbas_loc[l + 1]]\<close> is clipped to the \<open>nj\<close> rows there are.
\<close>

definition slice_lo :: "psmooth_setup \<Rightarrow> nat \<Rightarrow> nat" where
  "slice_lo self l = min (nbas_loc (tabs self) ! l) (nj_of self)"

definition slice_len :: "psmooth_setup \<Rightarrow> nat \<Rightarrow> nat" where
  "slice_len self l = min (nbas_loc (tabs self) ! (l + 1)) (nj_of self) - slice_lo self l"

text \<open>
  \<open>get_b1_pb\<close>, \<open>get_b2_ja\<close> and their \<open>_recip\<close> variants (lines 1638-1650, 1665-1677):
  \<open>np.einsum("bg,pg,g->pb", FL_bg, self.delta_lpg[l], dv_g) * self.w_b\<close> and
  \<open>np.einsum("bg,jabg,b,g->ja", FL_bg, self.phi_jabg[...], self.w_b, dv_g)\<close>. \<open>FL_bg\<close> comes
  with its shape \<open>(n_b, n_g)\<close>.
\<close>

definition get_b1_pb :: "fit_lib \<Rightarrow> psmooth_setup \<Rightarrow> nat \<Rightarrow> mat \<Rightarrow> nat \<Rightarrow> mat" where
  "get_b1_pb lib self n_g FL_bg l =
     (\<lambda>p b. (\<Sum>g<n_g. FL_bg b g * snd (delta_lpg self) l p g * get_dv lib (sbt_rgd self) g)
             * w_b self b)"

definition get_b2_ja :: "fit_lib \<Rightarrow> psmooth_setup \<Rightarrow> nat \<Rightarrow> nat \<Rightarrow> mat \<Rightarrow> nat \<Rightarrow> mat" where
  "get_b2_ja lib self n_b n_g FL_bg l =
     (\<lambda>j a. \<Sum>b<n_b. \<Sum>g<n_g.
        FL_bg b g * phi_jabg self (slice_lo self l + j) a b g * w_b self b
          * get_dv lib (sbt_rgd self) g)"

definition get_b1_pb_recip :: "fit_lib \<Rightarrow> psmooth_setup \<Rightarrow> nat \<Rightarrow> mat \<Rightarrow> nat \<Rightarrow> mat" where
  "get_b1_pb_recip lib self n_g FL_bg l =
     (\<lambda>p b. (\<Sum>g<n_g. FL_bg b g * delta_lpk self l p g * get_dvk lib (sbt_rgd self) g)
             * w_b self b)"

definition get_b2_ja_recip :: "fit_lib \<Rightarrow> psmooth_setup \<Rightarrow> nat \<Rightarrow> nat \<Rightarrow> mat \<Rightarrow> nat \<Rightarrow> mat" where
  "get_b2_ja_recip lib self n_b n_g FL_bg l =
     (\<lambda>j a. \<Sum>b<n_b. \<Sum>g<n_g.
        FL_bg b g * phi_jabk self (slice_lo self l + j) a b g * w_b self b
          * get_dvk lib (sbt_rgd self) g)"

text \<open>
  \<open>cat_b_vecs\<close> (lines 1692-1693): \<open>np.append(b1.flatten(), b2.flatten())\<close>, for \<open>b1\<close> of
  shape \<open>(r1, c1)\<close> and \<open>b2\<close> of shape \<open>(r2, c2)\<close>, in row-major order.
\<close>

definition cat_b_vecs :: "nat \<Rightarrow> nat \<Rightarrow> mat \<Rightarrow> nat \<Rightarrow> nat \<Rightarrow> mat \<Rightarrow> vec" where
  "cat_b_vecs r1 c1 b1 r2 c2 b2 =
     (\<lambda>k. if k < r1 * c1 then b1 (k div c1) (k mod c1)
          else if k < r1 * c1 + r2 * c2 then b2 ((k - r1 * c1) div c2) ((k - r1 * c1) mod c2)
          else 0)"

text \<open>
  What one pass of the innermost loop (lines 1481-1495) can raise, in the order of the
  statements. \<open>y_sbLg[s, :, L, :]\<close> raises \<open>IndexError\<close> for \<open>L\<close> past the third axis;
  \<open>einsum\<close> and the product with \<open>w_b\<close> raise \<open>ValueError\<close> when the extents of \<open>g\<close> or of \<open>b\<close>
  disagree (numpy would broadcast an extent of one, which the model does not follow);
  \<open>nbas_loc[l + 1]\<close> and \<open>p_cl_l_ii[l]\<close> raise \<open>IndexError\<close>; \<open>cho_solve\<close> raises \<open>ValueError\<close>
  when the factor and \<open>b\<close> differ in size; \<open>reshape(-1, Nalpha_sm)\<close> raises \<open>ValueError\<close> for
  \<open>Nalpha_sm = 0\<close>; and the masked assignment raises \<open>ValueError\<close> unless the rows of the
  value are as many as the entries of \<open>lmlist_i\<close> equal to \<open>L\<close>, or one row, which
  is broadcast.
\<close>

definition mask_count :: "psmooth_setup \<Rightarrow> nat \<Rightarrow> nat" where
  "mask_count self L = length (filter (\<lambda>i. lmlist_i (tabs self) ! i = L) [0..<ni_of self])"

definition cdf_check :: "psmooth_setup \<Rightarrow> field4 \<Rightarrow> nat \<Rightarrow> nat \<Rightarrow> pyerr option" where
  "cdf_check self y l L =
     (if \<not> L < f_Lmax y then Some IndexError
      else if f_ng y \<noteq> sbt_ng (sbt_rgd self) \<or> f_nb y \<noteq> length (alphas_ae self)
        then Some ValueError
      else if \<not> l + 1 < length (nbas_loc (tabs self)) then Some IndexError
      else if \<not> l < length (p_cl_l_ii self) then Some IndexError
      else if fst (p_cl_l_ii self ! l)
                \<noteq> fst (delta_lpg self) * f_nb y + slice_len self l * length (alphas self)
        then Some ValueError
      else if length (alphas self) = 0 then Some ValueError
      else if slice_len self l \<noteq> mask_count self L \<and> slice_len self l \<noteq> 1 then Some ValueError
      else None)"

text \<open>
  Lines 1484-1491: the right-hand side \<open>b\<close> for \<open>(s, l, L)\<close> and
  \<open>x = cho_solve(self.p_cl_l_ii[l], b)\<close>.
\<close>

definition cdf_b :: "fit_lib \<Rightarrow> psmooth_setup \<Rightarrow> field4 \<Rightarrow> bool \<Rightarrow> nat \<Rightarrow> nat \<Rightarrow> nat \<Rightarrow> vec" where
  "cdf_b lib self y realspace s l L =
     (let FL_bg = (\<lambda>b g. f_data y s b L g);
          b1 = (if realspace then get_b1_pb lib self (f_ng y) FL_bg l
                else get_b1_pb_recip lib self (f_ng y) FL_bg l);
          b2 = (if realspace then get_b2_ja lib self (f_nb y) (f_ng y) FL_bg l
                else get_b2_ja_recip lib self (f_nb y) (f_ng y) FL_bg l)
      in cat_b_vecs (fst (delta_lpg self)) (f_nb y) b1 (slice_len self l) (length (alphas self)) b2)"

definition cdf_x :: "fit_lib \<Rightarrow> psmooth_setup \<Rightarrow> field4 \<Rightarrow> bool \<Rightarrow> nat \<Rightarrow> nat \<Rightarrow> nat \<Rightarrow> vec" where
  "cdf_x lib self y realspace s l L =
     cho_solve (fst (p_cl_l_ii self ! l)) (snd (p_cl_l_ii self ! l)) (cdf_b lib self y realspace s l L)"

text \<open>
  Lines 1492-1495: \<open>df_sLpb[s, L] += x[:N1].reshape(NP, nb)\<close> and
  \<open>c_sib[s, ilist, :] += x[N1:].reshape(-1, Nalpha_sm)\<close> with \<open>ilist = self.lmlist_i == L\<close>.
  The \<open>i\<close>-th row of \<open>c_sib[s]\<close> that the mask selects receives the row of the value with
  the rank of \<open>i\<close> among the selected rows (row 0 when a single row is broadcast).
\<close>

definition mask_row :: "psmooth_setup \<Rightarrow> nat \<Rightarrow> nat \<Rightarrow> nat \<Rightarrow> nat" where
  "mask_row self l L i =
     (if slice_len self l = mask_count self L
      then length (filter (\<lambda>i'. lmlist_i (tabs self) ! i' = L) [0..<i])
      else 0)"

definition cdf_step ::
  "fit_lib \<Rightarrow> psmooth_setup \<Rightarrow> field4 \<Rightarrow> bool \<Rightarrow> nat \<Rightarrow> nat \<Rightarrow> nat \<Rightarrow> arr3 \<times> arr4
     \<Rightarrow> pyerr + arr3 \<times> arr4" where
  "cdf_step lib self y realspace s l L acc =
     (case cdf_check self y l L of
        Some e \<Rightarrow> Inl e
      | None \<Rightarrow>
          (let x = cdf_x lib self y realspace s l L;
               N1 = fst (delta_lpg self) * f_nb y
           in Inr (\<lambda>s' i a. fst acc s' i a
                       + (if s' = s \<and> i < ni_of self \<and> lmlist_i (tabs self) ! i = L
                             \<and> a < length (alphas self)
                          then x (N1 + mask_row self l L i * length (alphas self) + a) else 0),
                   \<lambda>s' L' p b. snd acc s' L' p b
                       + (if s' = s \<and> L' = L \<and> p < fst (delta_lpg self) \<and> b < f_nb y
                          then x (p * f_nb y + b) else 0))))"

text \<open>
  The three nested loops (lines 1478-1481) as the list of their \<open>(s, l, L)\<close>, and the
  passes over it.
\<close>

definition cdf_iterations :: "psmooth_setup \<Rightarrow> nat \<Rightarrow> (nat \<times> nat \<times> nat) list" where
  "cdf_iterations self nspin =
     concat (map (\<lambda>s. concat (map (\<lambda>l. map (\<lambda>L. (s, l, L)) [l * l..<l * l + (2 * l + 1)])
                                  [0..<lmax self + 1]))
               [0..<nspin])"

fun cdf_loop ::
  "fit_lib \<Rightarrow> psmooth_setup \<Rightarrow> field4 \<Rightarrow> bool \<Rightarrow> (nat \<times> nat \<times> nat) list \<Rightarrow> arr3 \<times> arr4
     \<Rightarrow> pyerr + arr3 \<times> arr4" where
  "cdf_loop lib self y realspace [] acc = Inr acc"
| "cdf_loop lib self y realspace ((s, l, L) # its) acc =
     (case cdf_step lib self y realspace s l L acc of
        Inl e \<Rightarrow> Inl e
      | Inr acc' \<Rightarrow> cdf_loop lib self y realspace its acc')"

text \<open>
  \<open>PSmoothSetup.get_c_and_df\<close> (lines 1471-1496), on an object on which \<open>initialize_a2g\<close>
  has run. The result is (\<open>c_sib\<close>, \<open>df_sLpb\<close>), of shapes \<open>(nspin, ni, Nalpha_sm)\<close> and
  \<open>(nspin, Lmax, NP, nb)\<close>, zero outside.
\<close>

definition get_c_and_df ::
  "fit_lib \<Rightarrow> psmooth_setup \<Rightarrow> field4 \<Rightarrow> bool \<Rightarrow> pyerr + arr3 \<times> arr4" where
  "get_c_and_df lib self y_sbLg realspace =
     cdf_loop lib self y_sbLg realspace (cdf_iterations self (f_nspin y_sbLg))
       (\<lambda>s i a. 0, \<lambda>s L p b. 0)"

text \<open>
  The field \<open>a * x + c * y\<close> of two fields of the same shape.
\<close>

definition axpy4 :: "real \<Rightarrow> field4 \<Rightarrow> real \<Rightarrow> field4 \<Rightarrow> field4" where
  "axpy4 a x c y = x\<lparr>f_data := (\<lambda>s b L g. a * f_data x s b L g + c * f_data y s b L g)\<rparr>"

text \<open>
  A concrete instance: the one-shell object above after a setup with the identity as
  factor, and two fields of shape \<open>(1, 1, 1, 1)\<close>.
\<close>

definition toy_solved :: psmooth_setup where
  "toy_solved =
     toy_psmooth\<lparr>w_b := (\<lambda>b. 1), delta_lpg := (1, \<lambda>l p g. 1), delta_lpk := (\<lambda>l p g. 1),
                 phi_jabk := (\<lambda>j a b g. 1), phi_jabg := (\<lambda>j a b g. 1),
                 p_cl_l_ii := [(2, \<lambda>i j. if i = j then 1 else 0)]\<rparr>"

definition toy_field :: "real \<Rightarrow> field4" where
  "toy_field v = \<lparr>f_nspin = 1, f_nb = 1, f_Lmax = 1, f_ng = 1, f_data = (\<lambda>s b L g. v)\<rparr>"

section \<open>Theorems\<close>

subsection \<open>Shell tables\<close>










subsection \<open>The orchestrator\<close>

text \<open>
  C8. With an empty \<open>D_asp\<close> each of the three stages returns empty dictionaries and
  leaves the kernel object as it found it, whatever its state (also when no attribute
  has been assigned yet), so nothing stored is read.
\<close>

theorem empty_D_asp_is_noop:
  "calculate_paw_cider_features ext st setups [] = (Inr (Map.empty, Map.empty), st)
   \<and> calculate_paw_cider_energy ext st setups [] D_asiq
       = (Inr (Map.empty, Map.empty, Map.empty), st)
   \<and> calculate_paw_cider_potential ext st setups [] vc_asiq = (Inr Map.empty, st)"
  by (simp add: calculate_paw_cider_features_def calculate_paw_cider_energy_def
      calculate_paw_cider_potential_def)











subsection \<open>The interpolation count\<close>






subsection \<open>The v2 smooth setup\<close>













subsection \<open>Triangular solves\<close>

lemma fwd_subst_linear:
  "fwd_subst U (\<lambda>i. a * x i + c * y i) i = a * fwd_subst U x i + c * fwd_subst U y i"
proof (induction i rule: less_induct)
  case (less i)
  have "(\<Sum>k<i. U k i * fwd_subst U (\<lambda>i. a * x i + c * y i) k) =
          a * (\<Sum>k<i. U k i * fwd_subst U x k) + c * (\<Sum>k<i. U k i * fwd_subst U y k)"
    using less by (simp add: sum_distrib_left sum.distrib algebra_simps)
  then show ?case
    by (simp add: fwd_subst.simps [of U _ i] diff_divide_distrib add_divide_distrib
        algebra_simps)
qed

lemma bwd_subst_linear:
  "bwd_subst n U (\<lambda>i. a * x i + c * y i) i = a * bwd_subst n U x i + c * bwd_subst n U y i"
proof (induction n U x i rule: bwd_subst.induct)
  case (1 n U x i)
  show ?case
  proof (cases "i < n")
    case True
    have "(\<Sum>k\<in>{i<..<n}. U i k * bwd_subst n U (\<lambda>i. a * x i + c * y i) k) =
            a * (\<Sum>k\<in>{i<..<n}. U i k * bwd_subst n U x k)
          + c * (\<Sum>k\<in>{i<..<n}. U i k * bwd_subst n U y k)"
      using 1 True by (simp add: sum_distrib_left sum.distrib algebra_simps)
    then show ?thesis
      using True
      by (simp add: bwd_subst.simps [of n U _ i] diff_divide_distrib add_divide_distrib
          algebra_simps)
  next
    case False
    then show ?thesis by (simp add: bwd_subst.simps [of n U _ i])
  qed
qed

lemma bwd_subst_cong:
  assumes "\<And>k. k < n \<Longrightarrow> y k = y' k"
  shows "bwd_subst n U y i = bwd_subst n U y' i"
  using assms
proof (induction n U y i rule: bwd_subst.induct)
  case (1 n U y i)
  show ?case
  proof (cases "i < n")
    case True
    have "(\<Sum>k\<in>{i<..<n}. U i k * bwd_subst n U y k) = (\<Sum>k\<in>{i<..<n}. U i k * bwd_subst n U y' k)"
      using 1 True by (intro sum.cong) auto
    then show ?thesis
      using True 1(2) by (simp add: bwd_subst.simps [of n U _ i])
  next
    case False
    then show ?thesis by (simp add: bwd_subst.simps [of n U _ i])
  qed
qed

lemma fwd_subst_cong:
  assumes "\<And>k. k \<le> i \<Longrightarrow> b k = b' k"
  shows "fwd_subst U b i = fwd_subst U b' i"
  using assms
proof (induction i rule: less_induct)
  case (less i)
  have "(\<Sum>k<i. U k i * fwd_subst U b k) = (\<Sum>k<i. U k i * fwd_subst U b' k)"
    using less by (intro sum.cong) auto
  then show ?case
    using less(2) [of i] by (simp add: fwd_subst.simps [of U _ i])
qed

lemma cho_solve_linear:
  "cho_solve n U (\<lambda>i. a * x i + c * y i) i = a * cho_solve n U x i + c * cho_solve n U y i"
proof -
  have "bwd_subst n U (fwd_subst U (\<lambda>i. a * x i + c * y i)) i =
          bwd_subst n U (\<lambda>i. a * fwd_subst U x i + c * fwd_subst U y i) i"
    by (intro bwd_subst_cong) (simp add: fwd_subst_linear)
  then show ?thesis
    by (simp add: cho_solve_def bwd_subst_linear)
qed

lemma cho_solve_cong:
  assumes "\<And>k. k < n \<Longrightarrow> b k = b' k"
  shows "cho_solve n U b i = cho_solve n U b' i"
  unfolding cho_solve_def
  by (intro bwd_subst_cong fwd_subst_cong) (use assms in auto)

lemma cho_solve_zero: "cho_solve n U (\<lambda>i. 0) i = 0"
  using cho_solve_linear [of n U 0 "\<lambda>i. 0" 0 "\<lambda>i. 0" i] by simp

lemma cho_solve_sum:
  "cho_solve n U (\<lambda>i. \<Sum>g<(m::nat). c g * B g i) r = (\<Sum>g<m. c g * cho_solve n U (B g) r)"
proof (induction m)
  case 0
  then show ?case by (simp add: cho_solve_zero)
next
  case (Suc m)
  have "cho_solve n U (\<lambda>i. \<Sum>g<Suc m. c g * B g i) r =
          cho_solve n U (\<lambda>i. 1 * (\<Sum>g<m. c g * B g i) + c m * B m i) r"
    by simp
  also have "\<dots> = 1 * cho_solve n U (\<lambda>i. \<Sum>g<m. c g * B g i) r + c m * cho_solve n U (B m) r"
    by (rule cho_solve_linear)
  finally show ?case using Suc by simp
qed

text \<open>
  For a factor with non-zero diagonal, solving with the right-hand side \<open>U\<^sup>T (U x)\<close>
  gives back \<open>x\<close>. Only the upper triangle of \<open>U\<close> is read.
\<close>

lemma fwd_subst_inverse:
  assumes diag: "\<And>k. k < n \<Longrightarrow> U k k \<noteq> 0"
    and b: "\<And>k. k < n \<Longrightarrow> b k = (\<Sum>m\<le>k. U m k * z m)"
    and "i < n"
  shows "fwd_subst U b i = z i"
  using \<open>i < n\<close>
proof (induction i rule: less_induct)
  case (less i)
  have "(\<Sum>k<i. U k i * fwd_subst U b k) = (\<Sum>k<i. U k i * z k)"
    using less by (intro sum.cong) auto
  moreover have "b i = (\<Sum>k<i. U k i * z k) + U i i * z i"
    using b [OF less(2)] by (simp add: lessThan_Suc_atMost [symmetric])
  ultimately show ?case
    using diag [OF less(2)] by (simp add: fwd_subst.simps [of U b i])
qed

lemma bwd_subst_inverse:
  assumes diag: "\<And>k. k < n \<Longrightarrow> U k k \<noteq> 0"
    and y: "\<And>k. k < n \<Longrightarrow> y k = (\<Sum>m\<in>{k..<n}. U k m * x m)"
    and "i < n"
  shows "bwd_subst n U y i = x i"
  using assms
proof (induction n U y i rule: bwd_subst.induct)
  case (1 n U y i)
  have "(\<Sum>k\<in>{i<..<n}. U i k * bwd_subst n U y k) = (\<Sum>k\<in>{i<..<n}. U i k * x k)"
    using 1 by (intro sum.cong) auto
  moreover have "{i..<n} = insert i {i<..<n}"
    using 1(4) by auto
  then have "y i = U i i * x i + (\<Sum>k\<in>{i<..<n}. U i k * x k)"
    using 1(3) [OF 1(4)] by simp
  ultimately show ?case
    using 1(2) [OF 1(4)] 1(4) by (simp add: bwd_subst.simps [of n U y i])
qed

lemma cho_solve_inverse:
  assumes diag: "\<And>k. k < n \<Longrightarrow> U k k \<noteq> 0"
    and b: "\<And>k. k < n \<Longrightarrow> b k = (\<Sum>m\<le>k. U m k * (\<Sum>j\<in>{m..<n}. U m j * x j))"
    and "i < n"
  shows "cho_solve n U b i = x i"
proof -
  have "bwd_subst n U (fwd_subst U b) i = bwd_subst n U (\<lambda>k. \<Sum>j\<in>{k..<n}. U k j * x j) i"
    by (intro bwd_subst_cong fwd_subst_inverse [where n = n]) (use diag b in auto)
  also have "\<dots> = x i"
    by (intro bwd_subst_inverse) (use diag \<open>i < n\<close> in auto)
  finally show ?thesis by (simp add: cho_solve_def)
qed

subsection \<open>The Cholesky factor\<close>

lemma chol_diag:
  assumes "0 < chol_pivot A i"
  shows "0 < chol A i i" and "(chol A i i)\<^sup>2 + (\<Sum>k<i. (chol A k i)\<^sup>2) = A i i"
proof -
  have d: "chol A i i = sqrt (chol_pivot A i)"
    by (simp add: chol.simps [of A i i] chol_pivot_def)
  show "0 < chol A i i" using assms d by simp
  have "(chol A i i)\<^sup>2 = chol_pivot A i" using assms d by simp
  then show "(chol A i i)\<^sup>2 + (\<Sum>k<i. (chol A k i)\<^sup>2) = A i i"
    by (simp add: chol_pivot_def)
qed

lemma chol_product:
  assumes "0 < chol_pivot A i" and "i \<le> j"
  shows "(\<Sum>k\<le>i. chol A k i * chol A k j) = A i j"
proof (cases "i = j")
  case True
  then show ?thesis
    using chol_diag(2) [OF assms(1)]
    by (simp add: lessThan_Suc_atMost [symmetric] power2_eq_square)
next
  case False
  then have "i < j" using assms(2) by simp
  then have "chol A i j = (A i j - (\<Sum>k<i. chol A k i * chol A k j)) / chol A i i"
    by (simp add: chol.simps [of A i j])
  then have "chol A i i * chol A i j = A i j - (\<Sum>k<i. chol A k i * chol A k j)"
    using chol_diag(1) [OF assms(1)] by simp
  then show ?thesis
    by (simp add: lessThan_Suc_atMost [symmetric])
qed


subsection \<open>Solving against a column of the factored matrix\<close>

lemma cho_factor_SomeD:
  assumes "cho_factor n A = Some U"
  shows "\<And>i. i < n \<Longrightarrow> 0 < chol_pivot A i"
    and "U = (\<lambda>i j. if i < n \<and> j < n then chol A i j else 0)"
  using assms by (auto simp: cho_factor_def list_all_iff split: if_splits)

lemma cho_factor_None_iff:
  "cho_factor n A = None \<longleftrightarrow> (\<exists>i<n. chol_pivot A i \<le> 0)"
  by (force simp: cho_factor_def list_all_iff not_less)

lemma sum_restrict_le:
  fixes f :: "nat \<Rightarrow> real"
  assumes "c \<le> k"
  shows "(\<Sum>m\<le>k. if m \<le> c then f m else 0) = (\<Sum>m\<le>c. f m)"
proof -
  have "(\<Sum>m\<le>k. if m \<le> c then f m else 0) = (\<Sum>m\<in>{..k} \<inter> {m. m \<le> c}. f m)"
    by (simp add: sum.inter_restrict)
  moreover have "{..k} \<inter> {m. m \<le> c} = {..c}"
    using assms by auto
  ultimately show ?thesis by simp
qed

lemma cho_solve_column:
  assumes pos: "\<And>i. i < n \<Longrightarrow> 0 < chol_pivot A i"
    and sym: "\<And>i j. A i j = A j i"
    and U: "U = (\<lambda>i j. if i < n \<and> j < n then chol A i j else 0)"
    and b: "\<And>k. k < n \<Longrightarrow> b k = A k c"
    and "c < n" and "r < n"
  shows "cho_solve n U b r = (if r = c then 1 else 0)"
proof -
  let ?x = "\<lambda>j. if j = c then 1 else 0 :: real"
  have diag: "U k k \<noteq> 0" if "k < n" for k
    using chol_diag(1) [OF pos [OF that]] that by (simp add: U)
  have inner: "(\<Sum>j\<in>{m..<n}. U m j * ?x j) = (if m \<le> c then chol A m c else 0)" if "m < n" for m
  proof -
    have "(\<Sum>j\<in>{m..<n}. U m j * ?x j) = (\<Sum>j\<in>{m..<n}. if j = c then U m j else 0)"
      by (intro sum.cong) auto
    also have "\<dots> = (if c \<in> {m..<n} then U m c else 0)"
      by (simp add: sum.delta)
    finally show ?thesis using \<open>c < n\<close> that by (simp add: U)
  qed
  have rhs: "b k = (\<Sum>m\<le>k. U m k * (\<Sum>j\<in>{m..<n}. U m j * ?x j))" if "k < n" for k
  proof -
    have "U m k * (\<Sum>j\<in>{m..<n}. U m j * ?x j)
            = (if m \<le> c then chol A m k * chol A m c else 0)" if "m \<le> k" for m
    proof -
      have "m < n" using that \<open>k < n\<close> by simp
      moreover have "U m k = chol A m k" using \<open>m < n\<close> \<open>k < n\<close> by (simp add: U)
      ultimately show ?thesis unfolding inner [OF \<open>m < n\<close>] by simp
    qed
    then have "(\<Sum>m\<le>k. U m k * (\<Sum>j\<in>{m..<n}. U m j * ?x j))
            = (\<Sum>m\<le>k. if m \<le> c then chol A m k * chol A m c else 0)"
      by (intro sum.cong) auto
    also have "\<dots> = A k c"
    proof (cases "k \<le> c")
      case True
      then have "(\<Sum>m\<le>k. if m \<le> c then chol A m k * chol A m c else 0)
                   = (\<Sum>m\<le>k. chol A m k * chol A m c)"
        by (intro sum.cong) auto
      then show ?thesis
        using chol_product [OF pos [OF that] True] by simp
    next
      case False
      then have "c \<le> k" by simp
      then have "(\<Sum>m\<le>k. if m \<le> c then chol A m k * chol A m c else 0)
                   = (\<Sum>m\<le>c. chol A m c * chol A m k)"
        by (simp add: sum_restrict_le mult.commute)
      then show ?thesis
        using chol_product [OF pos [OF \<open>c < n\<close>] \<open>c \<le> k\<close>] sym [of k c] by simp
    qed
    finally show ?thesis using b [OF that] by simp
  qed
  show ?thesis
    using cho_solve_inverse [of n U b ?x r, OF diag rhs \<open>r < n\<close>] by simp
qed

text \<open>\<open>cho_solve\<close> is the application of a matrix: its columns are the solutions for unit vectors.\<close>

lemma cho_solve_as_matrix:
  "cho_solve n U b r = (\<Sum>c<n. b c * cho_solve n U (\<lambda>i. if i = c then 1 else 0) r)"
proof -
  have "b k = (\<Sum>c<n. b c * (if k = c then 1 else 0))" if "k < n" for k
  proof -
    have "(\<Sum>c<n. b c * (if k = c then 1 else 0)) = (\<Sum>c<n. if k = c then b c else 0)"
      by (intro sum.cong) auto
    then show ?thesis using that by (simp add: sum.delta')
  qed
  then have "cho_solve n U b r = cho_solve n U (\<lambda>i. \<Sum>c<n. b c * (if i = c then 1 else 0)) r"
    by (intro cho_solve_cong) auto
  then show ?thesis by (simp add: cho_solve_sum)
qed

subsection \<open>The dual functions of \<open>PAugSetup.initialize_g2a\<close>\<close>

lemma channel_ovlp_sym: "channel_ovlp self ns i j = channel_ovlp self ns j i"
  by (simp add: channel_ovlp_def mult.commute)

lemma g2a_channel_InrD:
  assumes "g2a_channel self l ff = Inr ff'"
  obtains U where "cho_factor (length (channel_ns self l)) (channel_ovlp self (channel_ns self l)) = Some U"
    and "ff' = (\<lambda>j g. if nbas_loc (tabs self) ! l \<le> j
                         \<and> j < nbas_loc (tabs self) ! l + length (channel_ns self l)
                         \<and> g < ng (slrgd self)
                      then cho_solve (length (channel_ns self l)) U
                             (\<lambda>c. pfuncs_ng self (channel_ns self l ! c) g)
                             (j - nbas_loc (tabs self) ! l)
                      else ff j g)"
    and "l + 1 < length (nbas_loc (tabs self))"
    and "list_all (\<lambda>m. m < nn self) (channel_ns self l)"
  using assms unfolding g2a_channel_def Let_def
  by (auto split: if_splits option.splits)

lemma g2a_channel_dual:
  assumes ch: "g2a_channel self l ff = Inr ff'"
    and r: "r < length (channel_ns self l)" and c: "c < length (channel_ns self l)"
  shows "(\<Sum>g<ng (slrgd self).
            ff' (nbas_loc (tabs self) ! l + r) g
              * (pfuncs_ng self (channel_ns self l ! c) g * g2a_weight self g))
         = (if r = c then 1 else 0)"
proof -
  let ?ns = "channel_ns self l"
  let ?n = "length ?ns"
  let ?A = "channel_ovlp self ?ns"
  let ?w = "\<lambda>g. pfuncs_ng self (?ns ! c) g * g2a_weight self g"
  from ch obtain U where U: "cho_factor ?n ?A = Some U"
    and ff': "ff' = (\<lambda>j g. if nbas_loc (tabs self) ! l \<le> j
                         \<and> j < nbas_loc (tabs self) ! l + ?n \<and> g < ng (slrgd self)
                      then cho_solve ?n U (\<lambda>c. pfuncs_ng self (?ns ! c) g)
                             (j - nbas_loc (tabs self) ! l)
                      else ff j g)"
    by (rule g2a_channel_InrD)
  have "(\<Sum>g<ng (slrgd self). ff' (nbas_loc (tabs self) ! l + r) g * ?w g)
          = (\<Sum>g<ng (slrgd self). ?w g * cho_solve ?n U (\<lambda>i. pfuncs_ng self (?ns ! i) g) r)"
    using r by (intro sum.cong) (auto simp: ff')
  also have "\<dots> = cho_solve ?n U
                     (\<lambda>i. \<Sum>g<ng (slrgd self). ?w g * pfuncs_ng self (?ns ! i) g) r"
    by (rule cho_solve_sum [symmetric])
  also have "\<dots> = (if r = c then 1 else 0)"
  proof (rule cho_solve_column [where A = ?A and c = c])
    show "0 < chol_pivot ?A i" if "i < ?n" for i
      using cho_factor_SomeD(1) [OF U that] .
    show "?A i j = ?A j i" for i j
      by (rule channel_ovlp_sym)
    show "U = (\<lambda>i j. if i < ?n \<and> j < ?n then chol ?A i j else 0)"
      using cho_factor_SomeD(2) [OF U] .
    show "(\<Sum>g<ng (slrgd self). ?w g * pfuncs_ng self (?ns ! k) g) = ?A k c" if "k < ?n" for k
      using that c by (simp add: channel_ovlp_def mult_ac)
    show "c < ?n" by (rule c)
    show "r < ?n" by (rule r)
  qed
  finally show ?thesis .
qed

text \<open>Each dual function is a combination of the projector functions of its own channel.\<close>

lemma g2a_channel_span:
  assumes ch: "g2a_channel self l ff = Inr ff'"
    and r: "r < length (channel_ns self l)"
  shows "\<exists>K. \<forall>g < ng (slrgd self).
           ff' (nbas_loc (tabs self) ! l + r) g
             = (\<Sum>c<length (channel_ns self l). K c * pfuncs_ng self (channel_ns self l ! c) g)"
proof -
  let ?ns = "channel_ns self l"
  let ?n = "length ?ns"
  from ch obtain U where
    ff': "ff' = (\<lambda>j g. if nbas_loc (tabs self) ! l \<le> j
                         \<and> j < nbas_loc (tabs self) ! l + ?n \<and> g < ng (slrgd self)
                      then cho_solve ?n U (\<lambda>c. pfuncs_ng self (?ns ! c) g)
                             (j - nbas_loc (tabs self) ! l)
                      else ff j g)"
    by (rule g2a_channel_InrD)
  define K where "K = (\<lambda>c. cho_solve ?n U (\<lambda>i. if i = c then 1 else 0) r)"
  have "ff' (nbas_loc (tabs self) ! l + r) g = (\<Sum>c<?n. K c * pfuncs_ng self (?ns ! c) g)"
    if "g < ng (slrgd self)" for g
  proof -
    have "ff' (nbas_loc (tabs self) ! l + r) g = cho_solve ?n U (\<lambda>c. pfuncs_ng self (?ns ! c) g) r"
      using that r by (simp add: ff')
    also have "\<dots> = (\<Sum>c<?n. pfuncs_ng self (?ns ! c) g * K c)"
      unfolding K_def by (rule cho_solve_as_matrix)
    also have "\<dots> = (\<Sum>c<?n. K c * pfuncs_ng self (?ns ! c) g)"
      by (simp add: mult.commute)
    finally show ?thesis .
  qed
  then show ?thesis by blast
qed

lemma g2a_channel_other_rows:
  assumes "g2a_channel self l ff = Inr ff'" and "j < nbas_loc (tabs self) ! l"
  shows "ff' j g = ff j g"
  using assms(1) by (rule g2a_channel_InrD) (use assms(2) in simp)

lemma g2a_loop_other_rows:
  assumes "g2a_loop self ls ff = Inr ff'" and "\<And>l. l \<in> set ls \<Longrightarrow> j < nbas_loc (tabs self) ! l"
  shows "ff' j g = ff j g"
  using assms
proof (induction ls arbitrary: ff)
  case Nil
  then show ?case by simp
next
  case (Cons l ls)
  from Cons.prems(1) obtain ff1 where
    1: "g2a_channel self l ff = Inr ff1" and 2: "g2a_loop self ls ff1 = Inr ff'"
    by (auto split: sum.splits)
  have "ff' j g = ff1 j g"
    using Cons.IH [OF 2] Cons.prems(2) by simp
  moreover have "ff1 j g = ff j g"
    using g2a_channel_other_rows [OF 1] Cons.prems(2) by simp
  ultimately show ?case by simp
qed

text \<open>
  With \<open>nbas_loc\<close> increasing, the rows a pass writes lie below the rows of every later
  pass, so the loop leaves them as that pass wrote them.
\<close>

lemma g2a_loop_channel:
  assumes srt: "sorted (nbas_loc (tabs self))"
    and len: "b < length (nbas_loc (tabs self))"
    and loop: "g2a_loop self [a..<b] ff = Inr ff'"
    and l: "a \<le> l" "l < b"
  shows "\<exists>ff0 ff1. g2a_channel self l ff0 = Inr ff1
           \<and> (\<forall>r < length (channel_ns self l). \<forall>g.
                 ff' (nbas_loc (tabs self) ! l + r) g = ff1 (nbas_loc (tabs self) ! l + r) g)"
  using loop l
proof (induction "b - a" arbitrary: a ff)
  case 0
  then show ?case by simp
next
  case (Suc k)
  then have ab: "[a..<b] = a # [Suc a..<b]"
    by (simp add: upt_conv_Cons)
  from Suc.prems(1) obtain ff1 where
    1: "g2a_channel self a ff = Inr ff1" and 2: "g2a_loop self [Suc a..<b] ff1 = Inr ff'"
    unfolding ab by (auto split: sum.splits)
  show ?case
  proof (cases "l = a")
    case True
    have "ff' (nbas_loc (tabs self) ! a + r) g = ff1 (nbas_loc (tabs self) ! a + r) g"
      if r: "r < length (channel_ns self a)" for r g
    proof (rule g2a_loop_other_rows [OF 2])
      fix l' assume "l' \<in> set [Suc a..<b]"
      then have l': "Suc a \<le> l'" "l' < b" by simp_all
      have "r < nbas_loc (tabs self) ! (a + 1) - nbas_loc (tabs self) ! a"
        using r by (simp add: channel_ns_def)
      then have "nbas_loc (tabs self) ! a + r < nbas_loc (tabs self) ! (a + 1)"
        by simp
      also have "\<dots> \<le> nbas_loc (tabs self) ! l'"
        using l' len by (intro sorted_nth_mono [OF srt]) auto
      finally show "nbas_loc (tabs self) ! a + r < nbas_loc (tabs self) ! l'" .
    qed
    then show ?thesis using 1 True by blast
  next
    case False
    then have "Suc a \<le> l" using Suc.prems(2) by simp
    moreover have "k = b - Suc a" using Suc.hyps(2) by simp
    ultimately show ?thesis
      using Suc.hyps(1) [of "Suc a" ff1] 2 Suc.prems(3) by simp
  qed
qed

lemma PAugSetup_tables_wf:
  assumes "PAugSetup_tables Zat = Inr tb"
  shows "sorted (nbas_loc tb)"
    and "length (nbas_loc tb) = fold max (llist_j tb) 0 + 2"
    and "last (nbas_loc tb) = length (nlist_j tb)"
  using assms
  by (auto simp: PAugSetup_tables_def PAugSetup_raw_tables_def build_tables_def nbas_loc_of_def
      split: if_splits)

lemma channel_ns_nth:
  assumes "sorted (nbas_loc (tabs self))" and "last (nbas_loc (tabs self)) = length (nlist_j (tabs self))"
    and "l + 1 < length (nbas_loc (tabs self))"
  shows "length (channel_ns self l) = nbas_loc (tabs self) ! (l + 1) - nbas_loc (tabs self) ! l"
    and "c < length (channel_ns self l) \<Longrightarrow>
           channel_ns self l ! c = nlist_j (tabs self) ! (nbas_loc (tabs self) ! l + c)"
proof -
  have ne: "nbas_loc (tabs self) \<noteq> []"
    using assms(3) by auto
  have "nbas_loc (tabs self) ! (l + 1)
          \<le> nbas_loc (tabs self) ! (length (nbas_loc (tabs self)) - 1)"
    using assms(3) by (intro sorted_nth_mono [OF assms(1)]) auto
  then have "nbas_loc (tabs self) ! (l + 1) \<le> last (nbas_loc (tabs self))"
    using ne by (simp add: last_conv_nth)
  then have le: "nbas_loc (tabs self) ! (l + 1) \<le> length (nlist_j (tabs self))"
    using assms(2) by simp
  show "length (channel_ns self l) = nbas_loc (tabs self) ! (l + 1) - nbas_loc (tabs self) ! l"
    using le by (simp add: channel_ns_def)
  show "channel_ns self l ! c = nlist_j (tabs self) ! (nbas_loc (tabs self) ! l + c)"
    if "c < length (channel_ns self l)"
  proof -
    have "c < length (nlist_j (tabs self)) - nbas_loc (tabs self) ! l"
      using that by (simp add: channel_ns_def)
    then have "nbas_loc (tabs self) ! l \<le> length (nlist_j (tabs self))"
      by simp
    then show ?thesis
      using that by (simp add: channel_ns_def nth_drop)
  qed
qed

lemma initialize_g2a_InrD:
  assumes "initialize_g2a self = Inr ps"
  obtains ff where "g2a_loop self [0..<lmax self + 1] (\<lambda>j g. 0) = Inr ff"
    and "ps = self\<lparr>pfuncs_ng := (\<lambda>n g. pfuncs_ng self n g * get_filt self (r_g (slrgd self) g)),
                    rcut_func := rcut_feat self,
                    ffuncs_jg := ff,
                    exact_ovlp_pf := (\<lambda>i j. if i = j \<and> i < ni_of self then 1 else 0)\<rparr>"
  using assms unfolding initialize_g2a_def
  by (auto split: if_splits sum.splits)

lemma initialize_g2a_dual:
  assumes init: "initialize_g2a self = Inr ps"
    and srt: "sorted (nbas_loc (tabs self))"
    and len: "lmax self + 1 < length (nbas_loc (tabs self))"
    and l: "l \<le> lmax self"
    and r: "r < length (channel_ns self l)" and c: "c < length (channel_ns self l)"
  shows "(\<Sum>g<ng (slrgd self).
            ffuncs_jg ps (nbas_loc (tabs self) ! l + r) g
              * (pfuncs_ng self (channel_ns self l ! c) g * g2a_weight self g))
         = (if r = c then 1 else 0)"
    and "\<exists>K. \<forall>g < ng (slrgd self).
           ffuncs_jg ps (nbas_loc (tabs self) ! l + r) g
             = (\<Sum>c<length (channel_ns self l). K c * pfuncs_ng self (channel_ns self l ! c) g)"
proof -
  from init obtain ff where loop: "g2a_loop self [0..<lmax self + 1] (\<lambda>j g. 0) = Inr ff"
    and ps: "ffuncs_jg ps = ff"
    by (rule initialize_g2a_InrD) simp
  from g2a_loop_channel [OF srt len loop, of l] l obtain ff0 ff1 where
    ch: "g2a_channel self l ff0 = Inr ff1"
    and same: "\<And>r g. r < length (channel_ns self l) \<Longrightarrow>
                 ff (nbas_loc (tabs self) ! l + r) g = ff1 (nbas_loc (tabs self) ! l + r) g"
    by auto
  show "(\<Sum>g<ng (slrgd self).
            ffuncs_jg ps (nbas_loc (tabs self) ! l + r) g
              * (pfuncs_ng self (channel_ns self l ! c) g * g2a_weight self g))
         = (if r = c then 1 else 0)"
    using g2a_channel_dual [OF ch r c] by (simp add: ps same [OF r])
  show "\<exists>K. \<forall>g < ng (slrgd self).
           ffuncs_jg ps (nbas_loc (tabs self) ! l + r) g
             = (\<Sum>c<length (channel_ns self l). K c * pfuncs_ng self (channel_ns self l ! c) g)"
    using g2a_channel_span [OF ch r] by (simp add: ps same [OF r])
qed

lemma fold_max_ge_init: "(a::nat) \<le> fold max xs a"
proof (induction xs arbitrary: a)
  case Nil
  show ?case by simp
next
  case (Cons y ys)
  have "a \<le> max y a" by simp
  also have "\<dots> \<le> fold max ys (max y a)" by (rule Cons.IH)
  finally show ?case by simp
qed

lemma fold_max_ge_mem: "x \<in> set xs \<Longrightarrow> (x::nat) \<le> fold max xs a"
proof (induction xs arbitrary: a)
  case Nil
  then show ?case by simp
next
  case (Cons y ys)
  show ?case
  proof (cases "x = y")
    case True
    have "x \<le> max y a" using True by simp
    also have "\<dots> \<le> fold max ys (max y a)" by (rule fold_max_ge_init)
    finally show ?thesis by simp
  next
    case False
    then show ?thesis using Cons by simp
  qed
qed

text \<open>
  C10. After \<open>PAugSetup.from_setup\<close> (which ends with \<open>initialize_g2a\<close>) has returned, for
  every channel \<open>l\<close> and all \<open>j\<close>, \<open>j'\<close> of that channel the quadrature sum of
  \<open>ffuncs_jg[j]\<close> times the projector function \<open>nlist_j[j']\<close> times the filter times
  \<open>r\<^sup>2 dr\<close> is \<open>1\<close> if \<open>j = j'\<close> and \<open>0\<close> otherwise; the same holds for the stored, already
  filtered \<open>pfuncs_ng\<close> under \<open>r\<^sup>2 dr\<close> alone; \<open>exact_ovlp_pf\<close> is the identity; and
  \<open>ffuncs_jg[j]\<close> is a combination of the projector functions of its own channel only.
\<close>

theorem PAugSetup_dual_basis:
  assumes fs: "PAugSetup_from_setup get_ffunc3 Zat max_rcut_j rgd = Inr ps"
    and l: "l \<le> lmax ps"
    and j: "nbas_loc (tabs ps) ! l \<le> j" "j < nbas_loc (tabs ps) ! (l + 1)"
    and j': "nbas_loc (tabs ps) ! l \<le> j'" "j' < nbas_loc (tabs ps) ! (l + 1)"
  shows "(\<Sum>g<ng rgd.
            ffuncs_jg ps j g
              * get_ffunc3 (nlist_j (tabs ps) ! j') rgd (Max (r_g rgd ` {..<ng rgd}) * (8 / 10)) g
              * get_filt ps (r_g rgd g) * (r_g rgd g * r_g rgd g * dr_g rgd g))
           = (if j = j' then 1 else 0)
       \<and> (\<Sum>g<ng rgd.
            ffuncs_jg ps j g * pfuncs_ng ps (nlist_j (tabs ps) ! j') g
              * (r_g rgd g * r_g rgd g * dr_g rgd g))
           = (if j = j' then 1 else 0)
       \<and> exact_ovlp_pf ps = (\<lambda>i i'. if i = i' \<and> i < ni_of ps then 1 else 0)
       \<and> (\<exists>K. \<forall>g < ng rgd.
            ffuncs_jg ps j g
              = (\<Sum>c<nbas_loc (tabs ps) ! (l + 1) - nbas_loc (tabs ps) ! l.
                   K c * get_ffunc3 (nlist_j (tabs ps) ! (nbas_loc (tabs ps) ! l + c)) rgd
                           (Max (r_g rgd ` {..<ng rgd}) * (8 / 10)) g))"
proof -
  let ?rc = "Max (r_g rgd ` {..<ng rgd}) * (8 / 10)"
  from fs obtain tb where tb: "PAugSetup_tables Zat = Inr tb"
    by (auto simp: PAugSetup_from_setup_def split: if_splits sum.splits)
  define self0 :: paug_setup where
    "self0 = \<lparr>slrgd = rgd, tabs = tb, nn = fold max (nlist_j tb) 0 + 1,
              lmax = fold max (llist_j tb) 0,
              pfuncs_ng = (\<lambda>n g. if n < fold max (nlist_j tb) 0 + 1 \<and> g < ng rgd
                                  then get_ffunc3 n rgd ?rc g else 0),
              rcut_func = ?rc, rcut_feat = max_rcut_j * 1,
              ffuncs_jg = (\<lambda>j g. 0), exact_ovlp_pf = (\<lambda>i j. 0)\<rparr>"
  have init: "initialize_g2a self0 = Inr ps"
    using fs tb by (simp add: PAugSetup_from_setup_def self0_def split: if_splits)
  have s0: "slrgd self0 = rgd" "tabs self0 = tb" "lmax self0 = fold max (llist_j tb) 0"
    "nn self0 = fold max (nlist_j tb) 0 + 1"
    by (simp_all add: self0_def)
  from init obtain ff where
    ps: "ps = self0\<lparr>pfuncs_ng := (\<lambda>n g. pfuncs_ng self0 n g * get_filt self0 (r_g (slrgd self0) g)),
                     rcut_func := rcut_feat self0, ffuncs_jg := ff,
                     exact_ovlp_pf := (\<lambda>i j. if i = j \<and> i < ni_of self0 then 1 else 0)\<rparr>"
    by (rule initialize_g2a_InrD)
  have p1: "tabs ps = tb" "lmax ps = lmax self0" "slrgd ps = rgd"
    and p2: "get_filt ps = get_filt self0" "ni_of ps = ni_of self0"
    and p3: "pfuncs_ng ps = (\<lambda>n g. pfuncs_ng self0 n g * get_filt self0 (r_g rgd g))"
    and p4: "exact_ovlp_pf ps = (\<lambda>i j. if i = j \<and> i < ni_of self0 then 1 else 0)"
    by (simp_all add: ps s0 get_filt_def ni_of_def fun_eq_iff)
  note wf = PAugSetup_tables_wf [OF tb]
  have srt: "sorted (nbas_loc (tabs self0))" using wf(1) by (simp add: s0)
  have len: "lmax self0 + 1 < length (nbas_loc (tabs self0))" using wf(2) by (simp add: s0)
  have l0: "l \<le> lmax self0" using l by (simp add: p1)
  have l1: "l + 1 < length (nbas_loc (tabs self0))" using l0 len by simp
  have lst: "last (nbas_loc (tabs self0)) = length (nlist_j (tabs self0))"
    using wf(3) by (simp add: s0)
  note cn = channel_ns_nth [OF srt lst l1]
  define jmin where "jmin = nbas_loc tb ! l"
  define r where "r = j - jmin"
  define c where "c = j' - jmin"
  have jr: "j = jmin + r" and jc: "j' = jmin + c"
    using j(1) j'(1) by (simp_all add: r_def c_def jmin_def p1)
  have r: "r < length (channel_ns self0 l)" and c: "c < length (channel_ns self0 l)"
    using j j' by (simp_all add: cn(1) r_def c_def jmin_def p1 s0)
  have nc: "channel_ns self0 l ! c = nlist_j tb ! j'"
    using cn(2) [OF c] by (simp add: s0 jc jmin_def)
  have j'len: "j' < length (nlist_j tb)"
    using c jc by (auto simp: channel_ns_def s0 jmin_def)
  have pf: "pfuncs_ng self0 (nlist_j tb ! m) g = get_ffunc3 (nlist_j tb ! m) rgd ?rc g"
    if "m < length (nlist_j tb)" "g < ng rgd" for m g
  proof -
    have "nlist_j tb ! m \<le> fold max (nlist_j tb) 0"
      using that(1) by (intro fold_max_ge_mem) simp
    then show ?thesis using that(2) by (simp add: self0_def)
  qed
  note dual = initialize_g2a_dual [OF init srt len l0 r c]
  have d1: "(\<Sum>g<ng rgd. ffuncs_jg ps j g
                * (pfuncs_ng self0 (nlist_j tb ! j') g * g2a_weight self0 g))
              = (if j = j' then 1 else 0)"
    using dual(1) by (simp add: s0 nc jr jc jmin_def)
  have first: "(\<Sum>g<ng rgd.
            ffuncs_jg ps j g * get_ffunc3 (nlist_j (tabs ps) ! j') rgd ?rc g
              * get_filt ps (r_g rgd g) * (r_g rgd g * r_g rgd g * dr_g rgd g))
           = (if j = j' then 1 else 0)"
  proof -
    have "(\<Sum>g<ng rgd.
            ffuncs_jg ps j g * get_ffunc3 (nlist_j (tabs ps) ! j') rgd ?rc g
              * get_filt ps (r_g rgd g) * (r_g rgd g * r_g rgd g * dr_g rgd g))
         = (\<Sum>g<ng rgd. ffuncs_jg ps j g
                * (pfuncs_ng self0 (nlist_j tb ! j') g * g2a_weight self0 g))"
      using pf [OF j'len] by (intro sum.cong) (auto simp: p1 p2 g2a_weight_def s0)
    then show ?thesis using d1 by simp
  qed
  have second: "(\<Sum>g<ng rgd.
            ffuncs_jg ps j g * pfuncs_ng ps (nlist_j (tabs ps) ! j') g
              * (r_g rgd g * r_g rgd g * dr_g rgd g))
           = (if j = j' then 1 else 0)"
  proof -
    have "(\<Sum>g<ng rgd.
            ffuncs_jg ps j g * pfuncs_ng ps (nlist_j (tabs ps) ! j') g
              * (r_g rgd g * r_g rgd g * dr_g rgd g))
         = (\<Sum>g<ng rgd. ffuncs_jg ps j g
                * (pfuncs_ng self0 (nlist_j tb ! j') g * g2a_weight self0 g))"
      by (intro sum.cong) (auto simp: p1 p3 g2a_weight_def s0)
    then show ?thesis using d1 by simp
  qed
  from dual(2) obtain K where
    K: "\<And>g. g < ng rgd \<Longrightarrow> ffuncs_jg ps j g
           = (\<Sum>c<length (channel_ns self0 l). K c * pfuncs_ng self0 (channel_ns self0 l ! c) g)"
    by (auto simp: s0 jr jmin_def)
  have span: "ffuncs_jg ps j g
              = (\<Sum>c<nbas_loc (tabs ps) ! (l + 1) - nbas_loc (tabs ps) ! l.
                   K c * get_ffunc3 (nlist_j (tabs ps) ! (nbas_loc (tabs ps) ! l + c)) rgd ?rc g)"
    if g: "g < ng rgd" for g
  proof -
    have "(\<Sum>c<length (channel_ns self0 l). K c * pfuncs_ng self0 (channel_ns self0 l ! c) g)
          = (\<Sum>c<nbas_loc tb ! (l + 1) - nbas_loc tb ! l.
               K c * get_ffunc3 (nlist_j tb ! (nbas_loc tb ! l + c)) rgd ?rc g)"
    proof (rule sum.cong)
      show "{..<length (channel_ns self0 l)} = {..<nbas_loc tb ! (l + 1) - nbas_loc tb ! l}"
        by (simp add: cn(1) s0)
      fix x assume "x \<in> {..<nbas_loc tb ! (l + 1) - nbas_loc tb ! l}"
      then have x: "x < length (channel_ns self0 l)" by (simp add: cn(1) s0)
      then have "nbas_loc tb ! l + x < length (nlist_j tb)"
        by (auto simp: channel_ns_def s0)
      then show "K x * pfuncs_ng self0 (channel_ns self0 l ! x) g
                 = K x * get_ffunc3 (nlist_j tb ! (nbas_loc tb ! l + x)) rgd ?rc g"
        using cn(2) [OF x] pf [OF _ g] by (simp add: s0)
    qed
    then show ?thesis using K [OF g] by (simp add: p1)
  qed
  show ?thesis
    using first second span by (auto simp: p4 p2)
qed

lemma chol_identity:
  assumes A: "\<And>i j. i < n \<Longrightarrow> j < n \<Longrightarrow> A i j = (if i = j then 1 else 0)"
    and "i \<le> j" and "j < n"
  shows "chol A i j = (if i = j then 1 else 0)"
  using assms(2,3)
proof (induction i arbitrary: j rule: less_induct)
  case (less i)
  have z: "chol A k m = 0" if "k < i" "i \<le> m" "m < n" for k m
    using less.IH [OF that(1), of m] that by simp
  have d: "chol A i i = 1"
    using z [of _ i] less.prems A [of i i]
    by (simp add: chol.simps [of A i i])
  show ?case
  proof (cases "i = j")
    case True
    then show ?thesis using d by simp
  next
    case False
    then have "i < j" using less.prems by simp
    then show ?thesis
      using z [of _ i] z [of _ j] less.prems A [of i j] d
      by (simp add: chol.simps [of A i j])
  qed
qed

lemma cho_factor_identity:
  assumes A: "\<And>i j. i < n \<Longrightarrow> j < n \<Longrightarrow> A i j = (if i = j then 1 else 0)"
  shows "cho_factor n A \<noteq> None"
proof -
  have "chol_pivot A i = 1" if "i < n" for i
  proof -
    have "chol A k i = 0" if "k < i" for k
    proof -
      have "chol A k i = (if k = i then 1 else 0)"
        by (rule chol_identity [where n = n]) (use A that \<open>i < n\<close> in auto)
      then show ?thesis using that by simp
    qed
    then show ?thesis using A [OF that that] by (simp add: chol_pivot_def)
  qed
  then show ?thesis by (simp add: cho_factor_None_iff)
qed

lemma toy_tables:
  "PAugSetup_tables 0 =
     Inr \<lparr>nlist_j = [0, 2, 1, 2], llist_j = [0, 0, 1, 2], nbas_loc = [0, 2, 3, 4],
          lmlist_i = [0, 0, 1, 2, 3, 4, 5, 6, 7, 8], jlist_i = [0, 1, 2, 2, 2, 3, 3, 3, 3, 3]\<rparr>"
  by (simp add: PAugSetup_tables_def PAugSetup_raw_tables_def build_tables_def nbas_loc_of_def
      upt_rec numeral_3_eq_3 eval_nat_numeral)

lemma toy_from_setup:
  "\<exists>ps. PAugSetup_from_setup toy_ffunc3 0 2 toy_grid = Inr ps
        \<and> nbas_loc (tabs ps) = [0, 2, 3, 4] \<and> nlist_j (tabs ps) = [0, 2, 1, 2] \<and> lmax ps = 2"
proof -
  define tb where "tb = \<lparr>nlist_j = [0, 2, 1, 2], llist_j = [0, 0, 1, 2], nbas_loc = [0, 2, 3, 4],
          lmlist_i = [0, 0, 1, 2, 3, 4, 5, 6, 7, 8], jlist_i = [0, 1, 2, 2, 2, 3, 3, 3, 3, 3]\<rparr>"
  define self0 :: paug_setup where
    "self0 = \<lparr>slrgd = toy_grid, tabs = tb, nn = fold max (nlist_j tb) 0 + 1,
              lmax = fold max (llist_j tb) 0,
              pfuncs_ng = (\<lambda>n g. if n < fold max (nlist_j tb) 0 + 1 \<and> g < ng toy_grid
                                  then toy_ffunc3 n toy_grid
                                         (Max (r_g toy_grid ` {..<ng toy_grid}) * (8 / 10)) g
                                  else 0),
              rcut_func = Max (r_g toy_grid ` {..<ng toy_grid}) * (8 / 10),
              rcut_feat = 2 * 1,
              ffuncs_jg = (\<lambda>j g. 0), exact_ovlp_pf = (\<lambda>i j. 0)\<rparr>"
  have ngt: "ng toy_grid = 2"
    by (simp add: toy_grid_def)
  have fs: "PAugSetup_from_setup toy_ffunc3 0 2 toy_grid = initialize_g2a self0"
    by (simp add: PAugSetup_from_setup_def toy_tables ngt self0_def tb_def)
  have w: "g2a_weight self0 g = 1" for g
    by (simp add: g2a_weight_def get_filt_def self0_def toy_grid_def)
  have pf: "pfuncs_ng self0 n g = (if n < 3 \<and> g < 2 then toy_ffunc3 n toy_grid 0 g else 0)" for n g
    by (simp add: self0_def tb_def ngt toy_ffunc3_def)
  have sl: "ng (slrgd self0) = 2" "nn self0 = 3" "lmax self0 = 2"
    "nbas_loc (tabs self0) = [0, 2, 3, 4]" "rcut_feat self0 = 2"
    by (simp_all add: self0_def tb_def ngt)
  have ns: "channel_ns self0 0 = [0, 2]" "channel_ns self0 1 = [1]" "channel_ns self0 2 = [2]"
    by (simp_all add: channel_ns_def self0_def tb_def)
  have two: "i = 0 \<or> i = 1" if "i < 2" for i :: nat
    using that by auto
  have o0: "channel_ovlp self0 [0, 2] i j = (if i = j then 1 else 0)" if "i < 2" "j < 2" for i j
    using two [OF that(1)] two [OF that(2)]
    by (auto simp: channel_ovlp_def w pf sl toy_ffunc3_def numeral_2_eq_2)
  have o1: "channel_ovlp self0 [1] i j = (if i = j then 1 else 0)" if "i < 1" "j < 1" for i j
    using that
    by (auto simp: channel_ovlp_def w pf sl toy_ffunc3_def numeral_2_eq_2)
  have o2: "channel_ovlp self0 [2] i j = (if i = j then 1 else 0)" if "i < 1" "j < 1" for i j
    using that
    by (auto simp: channel_ovlp_def w pf sl toy_ffunc3_def numeral_2_eq_2)
  have c0: "cho_factor (length [0, 2 :: nat]) (channel_ovlp self0 [0, 2]) \<noteq> None"
    by (rule cho_factor_identity) (use o0 in simp)
  have c1: "cho_factor (length [1 :: nat]) (channel_ovlp self0 [1]) \<noteq> None"
    by (rule cho_factor_identity) (use o1 in simp)
  have c2: "cho_factor (length [2 :: nat]) (channel_ovlp self0 [2]) \<noteq> None"
    by (rule cho_factor_identity) (use o2 in simp)
  have ch0: "\<exists>ff'. g2a_channel self0 0 ff = Inr ff'" for ff
    unfolding g2a_channel_def ns Let_def using c0 by (auto simp: sl split: option.splits)
  have ch1: "\<exists>ff'. g2a_channel self0 1 ff = Inr ff'" for ff
    unfolding g2a_channel_def ns Let_def using c1 by (auto simp: sl split: option.splits)
  have ch2: "\<exists>ff'. g2a_channel self0 2 ff = Inr ff'" for ff
    unfolding g2a_channel_def ns Let_def using c2 by (auto simp: sl split: option.splits)
  have up: "[0..<lmax self0 + 1] = [0, 1, 2]"
    by (simp add: sl upt_rec)
  obtain f1 where f1: "g2a_channel self0 0 (\<lambda>j g. 0) = Inr f1" using ch0 by blast
  obtain f2 where f2: "g2a_channel self0 1 f1 = Inr f2" using ch1 by blast
  obtain f3 where f3: "g2a_channel self0 2 f2 = Inr f3" using ch2 by blast
  have loop: "g2a_loop self0 [0..<lmax self0 + 1] (\<lambda>j g. 0) = Inr f3"
    unfolding up using f1 f2 f3 by simp
  have rc: "\<not> (rcut_feat self0 = 0 \<and> list_ex (\<lambda>g. r_g (slrgd self0) g \<le> 0) [0..<ng (slrgd self0)])"
    by (simp add: sl)
  obtain ps where ps: "initialize_g2a self0 = Inr ps" and "tabs ps = tb" and "lmax ps = 2"
    using loop rc unfolding initialize_g2a_def by (simp add: self0_def tb_def)
  then show ?thesis
    using fs by (auto simp: tb_def)
qed

theorem PAugSetup_dual_basis_witness:
  "\<exists>ps. PAugSetup_from_setup toy_ffunc3 0 2 toy_grid = Inr ps
        \<and> (\<Sum>g<ng toy_grid.
              ffuncs_jg ps 0 g * pfuncs_ng ps (nlist_j (tabs ps) ! 1) g
                * (r_g toy_grid g * r_g toy_grid g * dr_g toy_grid g)) = 0
        \<and> (\<Sum>g<ng toy_grid.
              ffuncs_jg ps 1 g * pfuncs_ng ps (nlist_j (tabs ps) ! 1) g
                * (r_g toy_grid g * r_g toy_grid g * dr_g toy_grid g)) = 1"
proof -
  from toy_from_setup obtain ps where
    fs: "PAugSetup_from_setup toy_ffunc3 0 2 toy_grid = Inr ps"
    and tb: "nbas_loc (tabs ps) = [0, 2, 3, 4]" and lm: "lmax ps = 2"
    by blast
  have l: "0 \<le> lmax ps" by simp
  have j0: "nbas_loc (tabs ps) ! 0 \<le> 0" "0 < nbas_loc (tabs ps) ! (0 + 1)"
    and j1: "nbas_loc (tabs ps) ! 0 \<le> 1" "1 < nbas_loc (tabs ps) ! (0 + 1)"
    by (simp_all add: tb)
  show ?thesis
    using PAugSetup_dual_basis [OF fs l j0 j1] PAugSetup_dual_basis [OF fs l j1 j1] fs
    by auto
qed

subsection \<open>Positive definiteness and the Cholesky factor\<close>




subsection \<open>\<open>PSmoothSetup.initialize_a2g\<close>\<close>













subsection \<open>\<open>PSmoothSetup.get_c_and_df\<close> is linear\<close>

lemma get_b1_pb_linear:
  "get_b1_pb lib self n (\<lambda>b g. a * X b g + c * Y b g) l p q =
     a * get_b1_pb lib self n X l p q + c * get_b1_pb lib self n Y l p q"
  by (simp add: get_b1_pb_def sum_distrib_left sum.distrib algebra_simps)

lemma get_b1_pb_recip_linear:
  "get_b1_pb_recip lib self n (\<lambda>b g. a * X b g + c * Y b g) l p q =
     a * get_b1_pb_recip lib self n X l p q + c * get_b1_pb_recip lib self n Y l p q"
  by (simp add: get_b1_pb_recip_def sum_distrib_left sum.distrib algebra_simps)

lemma get_b2_ja_linear:
  "get_b2_ja lib self m n (\<lambda>b g. a * X b g + c * Y b g) l j q =
     a * get_b2_ja lib self m n X l j q + c * get_b2_ja lib self m n Y l j q"
  by (simp add: get_b2_ja_def sum_distrib_left sum.distrib algebra_simps)

lemma get_b2_ja_recip_linear:
  "get_b2_ja_recip lib self m n (\<lambda>b g. a * X b g + c * Y b g) l j q =
     a * get_b2_ja_recip lib self m n X l j q + c * get_b2_ja_recip lib self m n Y l j q"
  by (simp add: get_b2_ja_recip_def sum_distrib_left sum.distrib algebra_simps)

lemma cat_b_vecs_linear:
  assumes "\<And>p q. B1 p q = a * X1 p q + c * Y1 p q"
    and "\<And>p q. B2 p q = a * X2 p q + c * Y2 p q"
  shows "cat_b_vecs r1 c1 B1 r2 c2 B2 k =
           a * cat_b_vecs r1 c1 X1 r2 c2 X2 k + c * cat_b_vecs r1 c1 Y1 r2 c2 Y2 k"
  by (simp add: cat_b_vecs_def assms)

lemma cdf_b_linear:
  assumes "f_nb x = f_nb y" and "f_ng x = f_ng y"
  shows "cdf_b lib self (axpy4 a x c y) rs s l L k =
           a * cdf_b lib self x rs s l L k + c * cdf_b lib self y rs s l L k"
proof -
  have sh: "f_nb (axpy4 a x c y) = f_nb y" "f_ng (axpy4 a x c y) = f_ng y"
    and d: "f_data (axpy4 a x c y) = (\<lambda>s b L g. a * f_data x s b L g + c * f_data y s b L g)"
    by (simp_all add: axpy4_def assms)
  show ?thesis
  proof (cases rs)
    case True
    show ?thesis
      unfolding cdf_b_def Let_def sh d assms using True
      by (simp add: cat_b_vecs_linear [OF get_b1_pb_linear get_b2_ja_linear])
  next
    case False
    show ?thesis
      unfolding cdf_b_def Let_def sh d assms using False
      by (simp add: cat_b_vecs_linear [OF get_b1_pb_recip_linear get_b2_ja_recip_linear])
  qed
qed

lemma cdf_x_linear:
  assumes "f_nb x = f_nb y" and "f_ng x = f_ng y"
  shows "cdf_x lib self (axpy4 a x c y) rs s l L k =
           a * cdf_x lib self x rs s l L k + c * cdf_x lib self y rs s l L k"
proof -
  have "cdf_b lib self (axpy4 a x c y) rs s l L =
          (\<lambda>k. a * cdf_b lib self x rs s l L k + c * cdf_b lib self y rs s l L k)"
    by (rule ext) (rule cdf_b_linear [OF assms])
  then show ?thesis
    by (simp add: cdf_x_def cho_solve_linear)
qed

lemma cdf_check_shape:
  assumes "f_nb x = f_nb y" and "f_Lmax x = f_Lmax y" and "f_ng x = f_ng y"
  shows "cdf_check self (axpy4 a x c y) l L = cdf_check self x l L"
    and "cdf_check self y l L = cdf_check self x l L"
  by (simp_all add: cdf_check_def axpy4_def assms)

lemma cdf_step_InrD:
  assumes "cdf_step lib self y rs s l L (c0, d0) = Inr (c1, d1)"
  shows "cdf_check self y l L = None"
    and "c1 = (\<lambda>s' i q. c0 s' i q
                 + (if s' = s \<and> i < ni_of self \<and> lmlist_i (tabs self) ! i = L
                       \<and> q < length (alphas self)
                    then cdf_x lib self y rs s l L
                           (fst (delta_lpg self) * f_nb y
                             + mask_row self l L i * length (alphas self) + q) else 0))"
    and "d1 = (\<lambda>s' L' p b. d0 s' L' p b
                 + (if s' = s \<and> L' = L \<and> p < fst (delta_lpg self) \<and> b < f_nb y
                    then cdf_x lib self y rs s l L (p * f_nb y + b) else 0))"
  using assms by (auto simp: cdf_step_def Let_def split: option.splits)

lemma cdf_step_linear:
  assumes sh: "f_nb x = f_nb y" "f_Lmax x = f_Lmax y" "f_ng x = f_ng y"
    and x: "cdf_step lib self x rs s l L (cx, dx) = Inr (cx', dx')"
    and y: "cdf_step lib self y rs s l L (cy, dy) = Inr (cy', dy')"
  shows "cdf_step lib self (axpy4 a x c y) rs s l L
           (\<lambda>s i q. a * cx s i q + c * cy s i q, \<lambda>s L p q. a * dx s L p q + c * dy s L p q)
         = Inr (\<lambda>s i q. a * cx' s i q + c * cy' s i q, \<lambda>s L p q. a * dx' s L p q + c * dy' s L p q)"
proof -
  note xs = cdf_step_InrD [OF x]
  note ys = cdf_step_InrD [OF y]
  have nb: "f_nb (axpy4 a x c y) = f_nb y"
    by (simp add: axpy4_def sh)
  show ?thesis
    unfolding cdf_step_def Let_def cdf_check_shape(1) [OF sh] xs(1) nb xs(2,3) ys(2,3) sh(1)
    by (simp add: cdf_x_linear [OF sh(1,3)] fun_eq_iff algebra_simps)
qed

lemma cdf_loop_linear:
  assumes sh: "f_nb x = f_nb y" "f_Lmax x = f_Lmax y" "f_ng x = f_ng y"
  shows "cdf_loop lib self x rs its (cx, dx) = Inr (cx', dx')
     \<Longrightarrow> cdf_loop lib self y rs its (cy, dy) = Inr (cy', dy')
     \<Longrightarrow> cdf_loop lib self (axpy4 a x c y) rs its
           (\<lambda>s i q. a * cx s i q + c * cy s i q, \<lambda>s L p q. a * dx s L p q + c * dy s L p q)
         = Inr (\<lambda>s i q. a * cx' s i q + c * cy' s i q, \<lambda>s L p q. a * dx' s L p q + c * dy' s L p q)"
proof (induction its arbitrary: cx dx cy dy)
  case Nil
  then show ?case by simp
next
  case (Cons it its)
  obtain s l L where it: "it = (s, l, L)" by (cases it) auto
  from Cons.prems(1) obtain cx1 dx1 where
    x1: "cdf_step lib self x rs s l L (cx, dx) = Inr (cx1, dx1)"
    and xr: "cdf_loop lib self x rs its (cx1, dx1) = Inr (cx', dx')"
    by (auto simp: it split: sum.splits)
  from Cons.prems(2) obtain cy1 dy1 where
    y1: "cdf_step lib self y rs s l L (cy, dy) = Inr (cy1, dy1)"
    and yr: "cdf_loop lib self y rs its (cy1, dy1) = Inr (cy', dy')"
    by (auto simp: it split: sum.splits)
  show ?case
    using cdf_step_linear [OF sh x1 y1, of a c] Cons.IH [OF xr yr]
    by (simp add: it)
qed

text \<open>
  C7. For fields \<open>x\<close> and \<open>y\<close> of the same shape on which \<open>PSmoothSetup.get_c_and_df\<close>
  returns, and all scalars \<open>a\<close> and \<open>c\<close>, \<open>get_c_and_df\<close> applied to \<open>a * x + c * y\<close> returns
  \<open>a\<close> times its result on \<open>x\<close> plus \<open>c\<close> times its result on \<open>y\<close>, in both components
  \<open>c_sib\<close> and \<open>df_sLpb\<close>, for \<open>realspace=True\<close> and for \<open>realspace=False\<close> (in exact real
  arithmetic).
\<close>

theorem get_c_and_df_linear:
  assumes "f_nspin x = f_nspin y" and "f_nb x = f_nb y"
    and "f_Lmax x = f_Lmax y" and "f_ng x = f_ng y"
    and "get_c_and_df lib self x realspace = Inr (cx_sib, dfx_sLpb)"
    and "get_c_and_df lib self y realspace = Inr (cy_sib, dfy_sLpb)"
  shows "get_c_and_df lib self (axpy4 a x c y) realspace =
           Inr (\<lambda>s i q. a * cx_sib s i q + c * cy_sib s i q,
                \<lambda>s L p b. a * dfx_sLpb s L p b + c * dfy_sLpb s L p b)"
proof -
  have ns: "f_nspin (axpy4 a x c y) = f_nspin x"
    by (simp add: axpy4_def)
  show ?thesis
    using cdf_loop_linear [OF assms(2,3,4), of lib self realspace "cdf_iterations self (f_nspin x)"
        "\<lambda>s i q. 0" "\<lambda>s L p b. 0" cx_sib dfx_sLpb "\<lambda>s i q. 0" "\<lambda>s L p b. 0" cy_sib dfy_sLpb a c]
      assms(1,5,6)
    by (simp add: get_c_and_df_def ns)
qed

lemma cho_solve_unit_factor:
  assumes U: "\<And>i j. i < n \<Longrightarrow> j < n \<Longrightarrow> U i j = (if i = j then 1 else 0)"
    and "i < n"
  shows "cho_solve n U b i = b i"
proof -
  have f: "fwd_subst U b i = b i" if "i < n" for i
    using that U by (simp add: fwd_subst.simps [of U b i])
  have "bwd_subst n U y i = y i" if "i < n" for y i
    using that U by (simp add: bwd_subst.simps [of n U y i])
  then show ?thesis
    using assms(2) f by (simp add: cho_solve_def)
qed

lemma toy_cdf_iterations: "cdf_iterations toy_solved (Suc 0) = [(0, 0, 0)]"
  by (simp add: cdf_iterations_def toy_solved_def toy_psmooth_def)

lemma toy_cdf_check: "cdf_check toy_solved (toy_field v) 0 0 = None"
  by (simp add: cdf_check_def toy_solved_def toy_psmooth_def toy_field_def slice_len_def
      slice_lo_def nj_of_def ni_of_def mask_count_def)

lemma toy_cdf_x:
  assumes "k < 2"
  shows "cdf_x (toy_lib e) toy_solved (toy_field v) True 0 0 0 k = v"
proof -
  have "cdf_x (toy_lib e) toy_solved (toy_field v) True 0 0 0 k = cdf_b (toy_lib e) toy_solved (toy_field v) True 0 0 0 k"
  proof -
    have p: "p_cl_l_ii toy_solved ! 0 = (2, \<lambda>i j. if i = j then 1 else 0)"
      by (simp add: toy_solved_def)
    show ?thesis
      unfolding cdf_x_def p fst_conv snd_conv
      by (rule cho_solve_unit_factor) (use assms in simp_all)
  qed
  also have "\<dots> = v"
    using assms
    by (simp add: cdf_b_def cat_b_vecs_def get_b1_pb_def get_b2_ja_def toy_solved_def
        toy_psmooth_def toy_field_def slice_len_def slice_lo_def nj_of_def toy_lib_def)
  finally show ?thesis .
qed

lemma toy_get_c_and_df:
  "\<exists>c d. get_c_and_df (toy_lib e) toy_solved (toy_field v) True = Inr (c, d)
         \<and> c 0 0 0 = v \<and> d 0 0 0 0 = v"
proof -
  have sh: "f_nspin (toy_field v) = Suc 0" "f_nb (toy_field v) = 1"
    by (simp_all add: toy_field_def)
  have t: "ni_of toy_solved = 1" "lmlist_i (tabs toy_solved) = [0]" "alphas toy_solved = [1]"
    "fst (delta_lpg toy_solved) = 1" "mask_row toy_solved 0 0 0 = 0"
    by (simp_all add: toy_solved_def toy_psmooth_def ni_of_def mask_row_def)
  show ?thesis
    by (simp add: get_c_and_df_def sh toy_cdf_iterations cdf_step_def toy_cdf_check Let_def t
        toy_cdf_x)
qed

theorem get_c_and_df_linear_witness:
  "\<exists>cx dfx cy dfy.
      get_c_and_df (toy_lib 1) toy_solved (toy_field 1) True = Inr (cx, dfx)
    \<and> get_c_and_df (toy_lib 1) toy_solved (toy_field 2) True = Inr (cy, dfy)
    \<and> cx 0 0 0 = 1 \<and> dfx 0 0 0 0 = 1 \<and> cy 0 0 0 = 2 \<and> dfy 0 0 0 0 = 2
    \<and> get_c_and_df (toy_lib 1) toy_solved (axpy4 3 (toy_field 1) 5 (toy_field 2)) True =
        Inr (\<lambda>s i q. 3 * cx s i q + 5 * cy s i q, \<lambda>s L p b. 3 * dfx s L p b + 5 * dfy s L p b)"
proof -
  obtain cx dfx where x: "get_c_and_df (toy_lib 1) toy_solved (toy_field 1) True = Inr (cx, dfx)"
    and vx: "cx 0 0 0 = 1" "dfx 0 0 0 0 = 1"
    using toy_get_c_and_df [of 1 1] by blast
  obtain cy dfy where y: "get_c_and_df (toy_lib 1) toy_solved (toy_field 2) True = Inr (cy, dfy)"
    and vy: "cy 0 0 0 = 2" "dfy 0 0 0 0 = 2"
    using toy_get_c_and_df [of 1 2] by blast
  have "get_c_and_df (toy_lib 1) toy_solved (axpy4 3 (toy_field 1) 5 (toy_field 2)) True =
        Inr (\<lambda>s i q. 3 * cx s i q + 5 * cy s i q, \<lambda>s L p b. 3 * dfx s L p b + 5 * dfy s L p b)"
    using get_c_and_df_linear [of "toy_field 1" "toy_field 2" "toy_lib 1" toy_solved True
        cx dfx cy dfy 3 5] x y
    by (simp add: toy_field_def)
  then show ?thesis using x y vx vy by blast
qed

end
